theory Spec2Isabelle
  imports Main "HOL-Library.Word"
begin

section \<open>C strings\<close>

text \<open>
  The sources compare task names with \<^verbatim>\<open>pcmk__str_eq(a, b, pcmk__str_casei)\<close> and
  \<^verbatim>\<open>safe_str_eq(a, b)\<close>, which ignore the case of ASCII letters, and test for a
  substring with \<^verbatim>\<open>strstr(key, needle) != NULL\<close>. The comparison helpers are library code
  that is not part of the sources embedded here; they are written out below on \<open>string\<close>.
\<close>

definition c_tolower :: "char \<Rightarrow> char" where
  "c_tolower c =
     (case map_of (zip ''ABCDEFGHIJKLMNOPQRSTUVWXYZ'' ''abcdefghijklmnopqrstuvwxyz'') c of
        Some l \<Rightarrow> l
      | None \<Rightarrow> c)"

definition str_casei_eq :: "string \<Rightarrow> string \<Rightarrow> bool" where
  "str_casei_eq a b = (map c_tolower a = map c_tolower b)"

fun starts_with :: "string \<Rightarrow> string \<Rightarrow> bool" where
  "starts_with s [] = True"
| "starts_with [] (n # ns) = False"
| "starts_with (c # cs) (n # ns) = (c = n \<and> starts_with cs ns)"

fun strstr :: "string \<Rightarrow> string \<Rightarrow> bool" where
  "strstr [] needle = (needle = [])"
| "strstr (c # cs) needle = (starts_with (c # cs) needle \<or> strstr cs needle)"

fun strcase_any_of :: "string \<Rightarrow> string list \<Rightarrow> bool" where
  "strcase_any_of s [] = False"
| "strcase_any_of s (x # xs) = (str_casei_eq s x \<or> strcase_any_of s xs)"

text \<open>The return code \<^verbatim>\<open>pcmk_ok\<close> of the library.\<close>

definition pcmk_ok :: int where "pcmk_ok = 0"

text \<open>A \<^verbatim>\<open>GHashTable\<close> of strings is a map; \<^verbatim>\<open>NULL\<close> pointers are \<open>None\<close>.\<close>

type_synonym str_table = "string \<Rightarrow> string option"


section \<open>Executor interface: resource history (controld\_execd.c)\<close>

subsection \<open>Constants of the headers\<close>

definition CRM_META :: string where "CRM_META = ''CRM_meta''"
definition RSC_NOTIFY :: string where "RSC_NOTIFY = ''notify''"
definition RSC_STOP :: string where "RSC_STOP = ''stop''"
definition RSC_STATUS :: string where "RSC_STATUS = ''monitor''"
definition CRMD_ACTION_START :: string where "CRMD_ACTION_START = ''start''"
definition CRMD_ACTION_STOP :: string where "CRMD_ACTION_STOP = ''stop''"
definition CRMD_ACTION_STATUS :: string where "CRMD_ACTION_STATUS = ''monitor''"
definition XML_ATTR_CRM_VERSION :: string where "XML_ATTR_CRM_VERSION = ''crm_feature_set''"

subsection \<open>Data\<close>

datatype op_status_t =
    PCMK_LRM_OP_PENDING
  | PCMK_LRM_OP_DONE
  | PCMK_LRM_OP_CANCELLED
  | PCMK_LRM_OP_TIMEOUT
  | PCMK_LRM_OP_NOTSUPPORTED
  | PCMK_LRM_OP_ERROR
  | PCMK_LRM_OP_ERROR_HARD
  | PCMK_LRM_OP_ERROR_FATAL
  | PCMK_LRM_OP_NOT_INSTALLED
  | PCMK_LRM_OP_NOT_CONNECTED
  | PCMK_LRM_OP_INVALID

record lrmd_event_data =
  rsc_id :: string
  op_type :: string
  user_data :: "string option"
  call_id :: int
  timeout :: "32 word"
  interval_ms :: "32 word"
  start_delay :: "32 word"
  rsc_deleted :: bool
  rc :: int
  op_status :: op_status_t
  params :: "str_table option"

record lrmd_rsc_info =
  rsc_type :: string
  standard :: string
  provider :: "string option"

record rsc_history =
  history_id :: string
  rsc :: lrmd_rsc_info
  last_op :: "lrmd_event_data option"
  failed_op :: "lrmd_event_data option"
  recurring_op_list :: "lrmd_event_data list"
  stop_params :: "str_table option"
  last_callid :: int

text \<open>
  The executor state holds the history table. Deleting a resource's history from the
  configuration store (\<^verbatim>\<open>controld_delete_resource_history\<close>) is an effect outside this
  file; the state records each such request as a pair of resource id and node name.
\<close>

record lrm_state =
  node_name :: string
  resource_history :: "string \<Rightarrow> rsc_history option"
  cib_history_deletes :: "(string \<times> string) list"

subsection \<open>Copying parameters\<close>

text \<open>
  \<^verbatim>\<open>g_hash_table_foreach(src, copy_instance_keys, dst)\<close> replaces in \<open>dst\<close> every key of
  \<open>src\<close> that does not contain \<^verbatim>\<open>CRM_meta_\<close>; \<^verbatim>\<open>copy_meta_keys\<close> copies the keys that do.
  Each callback touches only its own key, so the order of the traversal does not matter.
\<close>

definition copy_instance_keys :: "str_table \<Rightarrow> str_table \<Rightarrow> str_table" where
  "copy_instance_keys src dst =
     (\<lambda>key. case src key of
        None \<Rightarrow> dst key
      | Some v \<Rightarrow> if \<not> strstr key (CRM_META @ ''_'') then Some v else dst key)"

definition copy_meta_keys :: "str_table \<Rightarrow> str_table \<Rightarrow> str_table" where
  "copy_meta_keys src dst =
     (\<lambda>key. case src key of
        None \<Rightarrow> dst key
      | Some v \<Rightarrow> if strstr key (CRM_META @ ''_'') then Some v else dst key)"

subsection \<open>Recurring operations of a history entry\<close>

definition recurring_match :: "lrmd_event_data \<Rightarrow> lrmd_event_data \<Rightarrow> bool" where
  "recurring_match op existing =
     (interval_ms op = interval_ms existing
      \<and> rsc_id op = rsc_id existing
      \<and> str_casei_eq (op_type op) (op_type existing))"

text \<open>
  \<^verbatim>\<open>history_remove_recurring_op\<close> deletes the first matching link and returns whether it
  found one.
\<close>

fun history_remove_recurring_op ::
  "lrmd_event_data list \<Rightarrow> lrmd_event_data \<Rightarrow> bool \<times> lrmd_event_data list" where
  "history_remove_recurring_op [] op = (False, [])"
| "history_remove_recurring_op (existing # rest) op =
     (if recurring_match op existing then (True, rest)
      else (fst (history_remove_recurring_op rest op),
            existing # snd (history_remove_recurring_op rest op)))"

definition history_free_recurring_ops :: "rsc_history \<Rightarrow> rsc_history" where
  "history_free_recurring_ops history = history\<lparr>recurring_op_list := []\<rparr>"

subsection \<open>\<^verbatim>\<open>update_history_cache\<close>\<close>

text \<open>
  \<^verbatim>\<open>rsc_op_expected_rc\<close> and \<^verbatim>\<open>did_rsc_op_fail\<close> are library functions outside these
  sources; the model takes them as the parameters \<open>expected_rc\<close> and \<open>did_fail\<close>.

  The body of the function after the entry has been found or created is split in two:
  \<open>history_record_result\<close> is the chain on \<^verbatim>\<open>op_status\<close> (cancelled, failed, non-recurring
  success) and \<open>history_record_recurring\<close> the final block on \<^verbatim>\<open>interval_ms\<close>. A cancelled
  recurring operation returns from inside the first chain.
\<close>

definition new_history_entry :: "string \<Rightarrow> lrmd_rsc_info \<Rightarrow> rsc_history" where
  "new_history_entry rid r =
     \<lparr>history_id = rid,
      rsc = \<lparr>rsc_type = rsc_type r, standard = standard r, provider = provider r\<rparr>,
      last_op = None, failed_op = None, recurring_op_list = [],
      stop_params = None, last_callid = 0\<rparr>"

definition history_record_result ::
  "(lrmd_event_data \<Rightarrow> int \<Rightarrow> bool) \<Rightarrow> int \<Rightarrow> rsc_history \<Rightarrow> lrmd_event_data \<Rightarrow> rsc_history" where
  "history_record_result did_fail target_rc entry op =
     (if op_status op = PCMK_LRM_OP_CANCELLED then entry
      else if did_fail op target_rc then entry\<lparr>failed_op := Some op\<rparr>
      else if interval_ms op = 0 then
        (let entry' = entry\<lparr>last_op := Some op\<rparr> in
         case params op of
           None \<Rightarrow> entry'
         | Some ps \<Rightarrow>
             if strcase_any_of (op_type op) [CRMD_ACTION_START, ''reload'', CRMD_ACTION_STATUS]
             then entry'\<lparr>stop_params := Some (copy_instance_keys ps Map.empty)\<rparr>
             else entry')
      else entry)"

definition history_record_recurring :: "rsc_history \<Rightarrow> lrmd_event_data \<Rightarrow> rsc_history" where
  "history_record_recurring entry op =
     (if 0 < interval_ms op then
        entry\<lparr>recurring_op_list :=
                 op # snd (history_remove_recurring_op (recurring_op_list entry) op)\<rparr>
      else if recurring_op_list entry \<noteq> [] \<and> \<not> str_casei_eq (op_type op) RSC_STATUS then
        history_free_recurring_ops entry
      else entry)"

definition update_history_cache ::
  "(lrmd_event_data \<Rightarrow> int) \<Rightarrow> (lrmd_event_data \<Rightarrow> int \<Rightarrow> bool) \<Rightarrow>
   lrm_state \<Rightarrow> lrmd_rsc_info option \<Rightarrow> lrmd_event_data \<Rightarrow> lrm_state" where
  "update_history_cache expected_rc did_fail lrm r op =
     (if rsc_deleted op then
        lrm\<lparr>cib_history_deletes := cib_history_deletes lrm @ [(rsc_id op, node_name lrm)]\<rparr>
      else if str_casei_eq (op_type op) RSC_NOTIFY then lrm
      else
        (case (case resource_history lrm (rsc_id op) of
                 Some e \<Rightarrow> Some e
               | None \<Rightarrow> map_option (new_history_entry (rsc_id op)) r) of
           None \<Rightarrow> lrm
         | Some found \<Rightarrow>
             (let entry = found\<lparr>last_callid := call_id op\<rparr>;
                  target_rc = expected_rc op
              in if op_status op = PCMK_LRM_OP_CANCELLED \<and> 0 < interval_ms op then
                   lrm\<lparr>resource_history := (resource_history lrm)(rsc_id op \<mapsto>
                     entry\<lparr>recurring_op_list :=
                              snd (history_remove_recurring_op (recurring_op_list entry) op)\<rparr>)\<rparr>
                 else
                   lrm\<lparr>resource_history := (resource_history lrm)(rsc_id op \<mapsto>
                     history_record_recurring
                       (history_record_result did_fail target_rc entry op) op)\<rparr>)))"

subsection \<open>\<^verbatim>\<open>construct_op\<close>\<close>

text \<open>
  The request is an XML node. What the function reads from it through helpers that are
  not part of these sources is gathered in a record, one field for each C expression:
  \<^item> \<open>xml_params\<close>: \<^verbatim>\<open>xml2list(rsc_op)\<close>;
  \<^item> \<open>xml_start_delay\<close>: \<^verbatim>\<open>crm_parse_int(crm_meta_value(params, XML_OP_ATTR_START_DELAY), "0")\<close>;
  \<^item> \<open>xml_timeout\<close>: \<^verbatim>\<open>crm_parse_int(crm_meta_value(params, XML_ATTR_TIMEOUT), "0")\<close>;
  \<^item> \<open>xml_interval_ms\<close>: the value stored by \<^verbatim>\<open>pcmk__guint_from_hash\<close>, \<open>None\<close> when it
    does not return \<^verbatim>\<open>pcmk_rc_ok\<close>;
  \<^item> \<open>xml_fence_params\<close>: whether the resource class has \<^verbatim>\<open>pcmk_ra_cap_fence_params\<close>;
  \<^item> \<open>xml_monitor_timeout\<close>: \<^verbatim>\<open>crm_get_msec\<close> of the parameter \<^verbatim>\<open>pcmk_monitor_timeout\<close>, a
    \<^verbatim>\<open>long long\<close>, \<open>None\<close> when the parameter is absent;
  \<^item> \<open>xml_transition_key\<close>: \<^verbatim>\<open>crm_element_value(rsc_op, XML_ATTR_TRANSITION_KEY)\<close>.
  \<^verbatim>\<open>op->timeout\<close> and \<^verbatim>\<open>op->start_delay\<close> are \<^verbatim>\<open>int\<close>s and \<^verbatim>\<open>op->interval_ms\<close> is a \<^verbatim>\<open>guint\<close>, all
  32-bit words here, compared as signed where the code compares \<^verbatim>\<open>int\<close>s. Storing the
  \<^verbatim>\<open>long long\<close> of \<^verbatim>\<open>crm_get_msec\<close> in \<^verbatim>\<open>op->timeout\<close> keeps its low 32 bits, and storing
  \<^verbatim>\<open>op->interval_ms\<close> there keeps all its bits.
  The block under \<^verbatim>\<open>ENABLE_VERSIONED_ATTRS\<close> is compiled out and not modelled. The
  feature set string \<^verbatim>\<open>CRM_FEATURE_SET\<close> is a parameter.
\<close>

record rsc_op_xml =
  xml_params :: str_table
  xml_start_delay :: "32 word"
  xml_timeout :: "32 word"
  xml_interval_ms :: "32 word option"
  xml_fence_params :: bool
  xml_monitor_timeout :: "64 word option"
  xml_transition_key :: "string option"

definition lrmd_new_event :: "string \<Rightarrow> string \<Rightarrow> 32 word \<Rightarrow> lrmd_event_data" where
  "lrmd_new_event rid task interval =
     \<lparr>rsc_id = rid, op_type = task, user_data = None, call_id = 0, timeout = 0,
      interval_ms = interval, start_delay = 0, rsc_deleted = False, rc = 0,
      op_status = PCMK_LRM_OP_DONE, params = None\<rparr>"

definition stop_op_params :: "lrm_state option \<Rightarrow> string \<Rightarrow> str_table \<Rightarrow> str_table" where
  "stop_op_params lrm rid ps =
     (case (case lrm of None \<Rightarrow> None | Some s \<Rightarrow> resource_history s rid) of
        None \<Rightarrow> ps
      | Some entry \<Rightarrow>
          (case stop_params entry of
             None \<Rightarrow> ps
           | Some cached \<Rightarrow> copy_instance_keys cached (copy_meta_keys ps Map.empty)))"

text \<open>
  The function is written in three steps: the fields read from the request, the block
  under the comment \<^verbatim>\<open>/* sanity */\<close>, and the transition key with the check that start
  and stop have no interval. \<^verbatim>\<open>CRM_CHECK(transition != NULL, return op)\<close> returns the
  operation as it is after the sanity block.
\<close>

definition construct_op_sanity :: "lrmd_event_data \<Rightarrow> lrmd_event_data" where
  "construct_op_sanity op =
     (let op' = (if timeout op \<le>s 0 then op\<lparr>timeout := interval_ms op\<rparr> else op)
      in if start_delay op' <s 0 then op'\<lparr>start_delay := 0\<rparr> else op')"

definition construct_op_transition ::
  "string option \<Rightarrow> string \<Rightarrow> lrmd_event_data \<Rightarrow> lrmd_event_data" where
  "construct_op_transition transition operation op =
     (case transition of
        None \<Rightarrow> op
      | Some key \<Rightarrow>
          if interval_ms op \<noteq> 0
             \<and> strcase_any_of operation [CRMD_ACTION_START, CRMD_ACTION_STOP]
          then op\<lparr>user_data := Some key, interval_ms := 0\<rparr>
          else op\<lparr>user_data := Some key\<rparr>)"

definition construct_op ::
  "string \<Rightarrow> lrm_state option \<Rightarrow> rsc_op_xml option \<Rightarrow> string \<Rightarrow> string \<Rightarrow> lrmd_event_data" where
  "construct_op feature_set lrm rsc_op rid operation =
     (let op = (lrmd_new_event rid operation 0)
                 \<lparr>op_status := PCMK_LRM_OP_PENDING, rc := - 1, timeout := 0, start_delay := 0\<rparr>
      in case rsc_op of
           None \<Rightarrow>
             op\<lparr>user_data := None,
                params := Some (Map.empty(XML_ATTR_CRM_VERSION \<mapsto> feature_set))\<rparr>
         | Some x \<Rightarrow>
             (let ps = (xml_params x)(CRM_META @ ''_op_target_rc'' := None);
                  interval = (case xml_interval_ms x of None \<Rightarrow> 0 | Some i \<Rightarrow> i);
                  tmo = (if xml_fence_params x \<and> str_casei_eq operation CRMD_ACTION_STATUS
                             \<and> 0 < interval
                         then (case xml_monitor_timeout x of
                                 None \<Rightarrow> xml_timeout x
                               | Some t \<Rightarrow> ucast t)
                         else xml_timeout x)
              in construct_op_transition (xml_transition_key x) operation
                   (construct_op_sanity
                      (op\<lparr>start_delay := xml_start_delay x, timeout := tmo,
                          interval_ms := interval,
                          params := Some (if \<not> str_casei_eq operation RSC_STOP then ps
                                          else stop_op_params lrm rid ps)\<rparr>))))"

subsection \<open>Uniqueness of recurring operations\<close>

text \<open>
  The key of a recurring operation as \<^verbatim>\<open>history_remove_recurring_op\<close> compares it: resource
  id, task without regard to case, interval.
\<close>

definition recurring_key :: "lrmd_event_data \<Rightarrow> string \<times> string \<times> 32 word" where
  "recurring_key e = (rsc_id e, map c_tolower (op_type e), interval_ms e)"

definition history_unique :: "lrm_state \<Rightarrow> bool" where
  "history_unique lrm =
     (\<forall>rid e. resource_history lrm rid = Some e \<longrightarrow>
        distinct (map recurring_key (recurring_op_list e)))"

subsection \<open>Sample data\<close>

definition ex_rsc :: lrmd_rsc_info where
  "ex_rsc = \<lparr>rsc_type = ''mysql'', standard = ''ocf'', provider = Some ''heartbeat''\<rparr>"

definition ex_op :: "string \<Rightarrow> 32 word \<Rightarrow> str_table option \<Rightarrow> lrmd_event_data" where
  "ex_op task interval ps =
     \<lparr>rsc_id = ''R1'', op_type = task, user_data = None, call_id = 7, timeout = 60000,
      interval_ms = interval, start_delay = 0, rsc_deleted = False, rc = 0,
      op_status = PCMK_LRM_OP_DONE, params = ps\<rparr>"

definition ex_lrm_empty :: lrm_state where
  "ex_lrm_empty = \<lparr>node_name = ''N1'', resource_history = Map.empty, cib_history_deletes = []\<rparr>"

definition ex_expected_rc :: "lrmd_event_data \<Rightarrow> int" where
  "ex_expected_rc op = 0"

definition ex_did_fail :: "lrmd_event_data \<Rightarrow> int \<Rightarrow> bool" where
  "ex_did_fail op target_rc = (rc op \<noteq> target_rc)"

definition ex_start_params :: str_table where
  "ex_start_params = [''port'' \<mapsto> ''3306'', ''CRM_meta_timeout'' \<mapsto> ''60000'']"

definition ex_entry :: "str_table option \<Rightarrow> lrmd_event_data list \<Rightarrow> rsc_history" where
  "ex_entry cached recurring =
     \<lparr>history_id = ''R1'', rsc = ex_rsc,
      last_op = Some (ex_op ''start'' 0 (Some ex_start_params)), failed_op = None,
      recurring_op_list = recurring, stop_params = cached, last_callid = 7\<rparr>"

definition ex_lrm_started :: lrm_state where
  "ex_lrm_started =
     \<lparr>node_name = ''N1'',
      resource_history = [''R1'' \<mapsto> ex_entry (Some [''port'' \<mapsto> ''3306'']) []],
      cib_history_deletes = []\<rparr>"

definition ex_lrm_monitored :: lrm_state where
  "ex_lrm_monitored =
     \<lparr>node_name = ''N1'',
      resource_history =
        [''R1'' \<mapsto> ex_entry (Some [''port'' \<mapsto> ''3306'']) [ex_op ''monitor'' 10000 None]],
      cib_history_deletes = []\<rparr>"

definition ex_stop_xml :: rsc_op_xml where
  "ex_stop_xml =
     \<lparr>xml_params = [''port'' \<mapsto> ''3307'', ''CRM_meta_timeout'' \<mapsto> ''20000''],
      xml_start_delay = 0, xml_timeout = 20000, xml_interval_ms = None,
      xml_fence_params = False, xml_monitor_timeout = None,
      xml_transition_key = Some ''3:1:0:abc''\<rparr>"

section \<open>Transition engine: fencing callbacks, trigger and abort\<close>

subsection \<open>Constants and enumerations of the headers\<close>

definition INFINITY :: int where "INFINITY = 1000000"
definition CRM_OP_FENCE :: string where "CRM_OP_FENCE = ''stonith''"
definition T_STONITH_NOTIFY_FENCE :: string where "T_STONITH_NOTIFY_FENCE = ''st_notify_fence''"

datatype crmd_fsa_state =
    S_IDLE
  | S_ELECTION
  | S_INTEGRATION
  | S_FINALIZE_JOIN
  | S_NOT_DC
  | S_POLICY_ENGINE
  | S_RECOVERY
  | S_RELEASE_DC
  | S_STARTING
  | S_PENDING
  | S_STOPPING
  | S_TERMINATE
  | S_TRANSITION_ENGINE
  | S_HALT
  | S_ILLEGAL

datatype transition_action = tg_done | tg_stop | tg_restart | tg_shutdown

datatype transition_status =
    transition_active
  | transition_pending
  | transition_complete
  | transition_stopped
  | transition_terminated
  | transition_action_failed
  | transition_failed

datatype action_type_e = action_type_pseudo | action_type_rsc | action_type_crm

datatype stonith_state = stonith_connected_command | stonith_connected_query | stonith_disconnected

subsection \<open>The graph\<close>

text \<open>
  Of an action's XML the code reads the id (\<^verbatim>\<open>ID(action->xml)\<close>) and the task attribute
  (\<^verbatim>\<open>crm_element_value(action->xml, XML_LRM_ATTR_TASK)\<close>). Lists are \<^verbatim>\<open>GList\<close>s of
  pointers; an action is addressed by the position of its synapse and its own position in
  the synapse, so that a change made through one pointer is seen through the other.
\<close>

record xml_node =
  xml_ID :: "string option"
  xml_task :: "string option"

record crm_action =
  a_id :: int
  a_type :: action_type_e
  a_confirmed :: bool
  a_failed :: bool
  a_xml :: xml_node

record synapse =
  s_id :: int
  s_priority :: int
  s_ready :: bool
  s_executed :: bool
  s_confirmed :: bool
  s_actions :: "crm_action list"
  s_inputs :: "crm_action list"

record crm_graph =
  g_id :: int
  abort_priority :: int
  completion_action :: transition_action
  abort_reason :: "string option"
  complete :: bool
  batch_limit :: int
  synapses :: "synapse list"

definition action_at :: "crm_graph \<Rightarrow> nat \<Rightarrow> nat \<Rightarrow> crm_action" where
  "action_at g i j = s_actions (synapses g ! i) ! j"

definition valid_pos :: "crm_graph \<Rightarrow> nat \<Rightarrow> nat \<Rightarrow> bool" where
  "valid_pos g i j = (i < length (synapses g) \<and> j < length (s_actions (synapses g ! i)))"

definition set_action :: "crm_graph \<Rightarrow> nat \<Rightarrow> nat \<Rightarrow> crm_action \<Rightarrow> crm_graph" where
  "set_action g i j a =
     g\<lparr>synapses := (synapses g)
          [i := (synapses g ! i)\<lparr>s_actions := (s_actions (synapses g ! i))[j := a]\<rparr>]\<rparr>"

subsection \<open>The state of the transition engine\<close>

text \<open>
  The globals the functions read and write. \<open>am_i_dc\<close> is the macro \<^verbatim>\<open>AM_I_DC\<close> and
  \<open>st_required\<close> the flag \<^verbatim>\<open>R_ST_REQUIRED\<close> of \<^verbatim>\<open>fsa_input_register\<close>. The two triggers
  count the calls of \<^verbatim>\<open>mainloop_set_trigger\<close>. Calls that leave the process (timers, FSA
  inputs, the configuration store, the peer cache, the log that matters to a claim) are
  recorded in order in \<open>te_effects\<close>; plain \<^verbatim>\<open>crm_info\<close>, \<^verbatim>\<open>crm_notice\<close> and \<^verbatim>\<open>crm_trace\<close>
  lines are not part of the state.
\<close>

datatype te_effect =
    Timer_restart
  | Fsa_input_I_PE_CALC
  | Notify_crmd
  | Err_no_notify_data
  | Crit_we_were_fenced
  | Qb_log_fini
  | Reboot_halt_system
  | St_fail_count_reset "string option"
  | Fenced_external "string option"
  | Send_stonith_update "string option" string
  | Peer_update_lost string

record te_state =
  fsa_state :: crmd_fsa_state
  am_i_dc :: bool
  st_required :: bool
  fsa_our_uname :: "string option"
  fsa_our_dc :: "string option"
  transition_graph :: "crm_graph option"
  fsa_pe_ref :: "string option"
  transition_timer_period_ms :: int
  transition_trigger :: nat
  stonith_reconnect :: nat
  stonith_api_state :: "stonith_state option"
  te_client_id :: "string option"
  stonith_cleanup_list :: "string list"
  peer_uuid :: "string option \<Rightarrow> string option"
  te_effects :: "te_effect list"

subsection \<open>\<^verbatim>\<open>abort_transition_graph\<close> and \<^verbatim>\<open>te_graph_trigger\<close>\<close>

text \<open>
  Both functions start with the same \<^verbatim>\<open>switch (fsa_state)\<close>; its seven cases are the
  states below, every other state falls to \<^verbatim>\<open>default\<close>.
\<close>

fun te_inactive_state :: "crmd_fsa_state \<Rightarrow> bool" where
  "te_inactive_state S_STARTING = True"
| "te_inactive_state S_PENDING = True"
| "te_inactive_state S_NOT_DC = True"
| "te_inactive_state S_HALT = True"
| "te_inactive_state S_ILLEGAL = True"
| "te_inactive_state S_STOPPING = True"
| "te_inactive_state S_TERMINATE = True"
| "te_inactive_state _ = False"

text \<open>
  \<^verbatim>\<open>update_abort_priority\<close>, \<^verbatim>\<open>update_graph\<close>, \<^verbatim>\<open>run_graph\<close> and
  \<^verbatim>\<open>throttle_get_total_job_limit\<close> belong to libraries outside these sources and are
  parameters of the model. The argument \<open>reason\<close> of \<^verbatim>\<open>abort_transition_graph\<close> only
  feeds log lines.
\<close>

type_synonym update_abort_priority_t =
  "crm_graph \<Rightarrow> int \<Rightarrow> transition_action \<Rightarrow> string \<Rightarrow> crm_graph"

type_synonym update_graph_t = "crm_graph \<Rightarrow> crm_action \<Rightarrow> crm_graph"

definition abort_transition_graph ::
  "update_abort_priority_t \<Rightarrow> int \<Rightarrow> transition_action \<Rightarrow> string \<Rightarrow> xml_node option \<Rightarrow>
   te_state \<Rightarrow> te_state" where
  "abort_transition_graph update_abort_priority priority action abort_text reason st =
     (case transition_graph st of
        None \<Rightarrow> st
      | Some graph \<Rightarrow>
          if te_inactive_state (fsa_state st) then st
          else
            (let st1 = st\<lparr>fsa_pe_ref := None\<rparr>
             in if complete graph then
                  (if 0 < transition_timer_period_ms st1
                   then st1\<lparr>te_effects := te_effects st1 @ [Timer_restart]\<rparr>
                   else st1\<lparr>te_effects := te_effects st1 @ [Fsa_input_I_PE_CALC]\<rparr>)
                else
                  st1\<lparr>transition_graph :=
                         Some (update_abort_priority graph priority action abort_text),
                       transition_trigger := Suc (transition_trigger st1)\<rparr>))"

definition te_graph_trigger ::
  "(crm_graph \<Rightarrow> transition_status \<times> crm_graph) \<Rightarrow> (int \<Rightarrow> int) \<Rightarrow> te_state \<Rightarrow> te_state" where
  "te_graph_trigger run_graph throttle_get_total_job_limit st =
     (case transition_graph st of
        None \<Rightarrow> st
      | Some graph \<Rightarrow>
          if te_inactive_state (fsa_state st) then st
          else if \<not> complete graph then
            (let limit = batch_limit graph;
                 ran = run_graph (graph\<lparr>batch_limit := throttle_get_total_job_limit limit\<rparr>);
                 graph' = (snd ran)\<lparr>batch_limit := limit\<rparr>
             in if fst ran = transition_active \<or> fst ran = transition_pending then
                  st\<lparr>transition_graph := Some graph'\<rparr>
                else
                  st\<lparr>transition_graph := Some (graph'\<lparr>complete := True\<rparr>),
                     te_effects := te_effects st @ [Notify_crmd]\<rparr>)
          else
            st\<lparr>transition_graph := Some (graph\<lparr>complete := True\<rparr>),
               te_effects := te_effects st @ [Notify_crmd]\<rparr>)"

definition trigger_graph :: "te_state \<Rightarrow> te_state" where
  "trigger_graph st = st\<lparr>transition_trigger := Suc (transition_trigger st)\<rparr>"

subsection \<open>\<^verbatim>\<open>fail_incompletable_stonith\<close> and \<^verbatim>\<open>tengine_stonith_connection_destroy\<close>\<close>

text \<open>
  The body of the inner loop for the action at position \<open>j\<close> of synapse \<open>i\<close>, on the
  graph as it is when the loop reaches it, together with \<^verbatim>\<open>last_action\<close>.
  \<^verbatim>\<open>safe_str_eq\<close> ignores case and is false on \<^verbatim>\<open>NULL\<close>.
\<close>

definition fail_action ::
  "update_graph_t \<Rightarrow> nat \<Rightarrow> nat \<Rightarrow> crm_graph \<times> xml_node option \<Rightarrow> crm_graph \<times> xml_node option" where
  "fail_action update_graph i j gl =
     (let graph = fst gl in
      if \<not> valid_pos graph i j then gl
      else
        (let action = action_at graph i j in
         if a_type action \<noteq> action_type_crm \<or> a_confirmed action then gl
         else
           (case xml_task (a_xml action) of
              None \<Rightarrow> gl
            | Some task \<Rightarrow>
                if str_casei_eq task CRM_OP_FENCE then
                  (let action' = action\<lparr>a_failed := True\<rparr>
                   in (update_graph (set_action graph i j action') action',
                       Some (a_xml action')))
                else gl)))"

text \<open>
  The outer loop body: a confirmed synapse is skipped, otherwise its actions are visited
  in order. The number of actions is read when the synapse is entered; \<^verbatim>\<open>update_graph\<close>
  changes flags and never the lists.
\<close>

definition fail_synapse ::
  "update_graph_t \<Rightarrow> nat \<Rightarrow> crm_graph \<times> xml_node option \<Rightarrow> crm_graph \<times> xml_node option" where
  "fail_synapse update_graph i gl =
     (if s_confirmed (synapses (fst gl) ! i) then gl
      else fold (fail_action update_graph i)
             [0..<length (s_actions (synapses (fst gl) ! i))] gl)"

definition fail_loop :: "update_graph_t \<Rightarrow> crm_graph \<Rightarrow> crm_graph \<times> xml_node option" where
  "fail_loop update_graph graph =
     fold (fail_synapse update_graph) [0..<length (synapses graph)] (graph, None)"

definition fail_incompletable_stonith ::
  "update_graph_t \<Rightarrow> update_abort_priority_t \<Rightarrow> te_state \<Rightarrow> bool \<times> te_state" where
  "fail_incompletable_stonith update_graph update_abort_priority st =
     (case transition_graph st of
        None \<Rightarrow> (False, st)
      | Some graph \<Rightarrow>
          (let gl = fail_loop update_graph graph;
               st' = st\<lparr>transition_graph := Some (fst gl)\<rparr>
           in case snd gl of
                None \<Rightarrow> (False, st')
              | Some last_action \<Rightarrow>
                  (True, abort_transition_graph update_abort_priority INFINITY tg_restart
                           ''Stonith failure'' (Some last_action) st')))"

text \<open>
  The first two statements of the callback: the reconnect trigger when fencing is
  required, and the API state.
\<close>

definition stonith_connection_lost :: "te_state \<Rightarrow> te_state" where
  "stonith_connection_lost st =
     (let st1 = (if st_required st then st\<lparr>stonith_reconnect := Suc (stonith_reconnect st)\<rparr>
                 else st)
      in case stonith_api_state st1 of
           None \<Rightarrow> st1
         | Some _ \<Rightarrow> st1\<lparr>stonith_api_state := Some stonith_disconnected\<rparr>)"

definition tengine_stonith_connection_destroy ::
  "update_graph_t \<Rightarrow> update_abort_priority_t \<Rightarrow> te_state \<Rightarrow> te_state" where
  "tengine_stonith_connection_destroy update_graph update_abort_priority st =
     (let st2 = stonith_connection_lost st
      in if am_i_dc st2 then
           trigger_graph (snd (fail_incompletable_stonith update_graph update_abort_priority st2))
         else st2)"

text \<open>
  What the proof about \<^verbatim>\<open>fail_incompletable_stonith\<close> asks of \<^verbatim>\<open>update_graph\<close>: it keeps
  the lists and the id, type and XML of every action, never clears \<^verbatim>\<open>failed\<close>, confirms no
  action but those with the id of the action it is given, and confirms no synapse that
  still holds an unconfirmed action.
\<close>

definition update_graph_frame :: "update_graph_t \<Rightarrow> bool" where
  "update_graph_frame update_graph =
     (\<forall>g a.
        length (synapses (update_graph g a)) = length (synapses g)
        \<and> (\<forall>i < length (synapses g).
              length (s_actions (synapses (update_graph g a) ! i))
                = length (s_actions (synapses g ! i))
              \<and> (s_confirmed (synapses (update_graph g a) ! i) \<longrightarrow>
                   s_confirmed (synapses g ! i)
                   \<or> (\<forall>j < length (s_actions (synapses g ! i)).
                         a_confirmed (action_at (update_graph g a) i j)))
              \<and> (\<forall>j < length (s_actions (synapses g ! i)).
                    a_id (action_at (update_graph g a) i j) = a_id (action_at g i j)
                    \<and> a_type (action_at (update_graph g a) i j) = a_type (action_at g i j)
                    \<and> a_xml (action_at (update_graph g a) i j) = a_xml (action_at g i j)
                    \<and> (a_failed (action_at g i j) \<longrightarrow>
                         a_failed (action_at (update_graph g a) i j))
                    \<and> (a_confirmed (action_at (update_graph g a) i j) \<longrightarrow>
                         a_confirmed (action_at g i j) \<or> a_id (action_at g i j) = a_id a))))"

definition unique_action_ids :: "crm_graph \<Rightarrow> bool" where
  "unique_action_ids g = distinct (concat (map (\<lambda>s. map a_id (s_actions s)) (synapses g)))"

text \<open>An unconfirmed fencing action in an unconfirmed synapse.\<close>

definition pending_fence :: "crm_graph \<Rightarrow> nat \<Rightarrow> nat \<Rightarrow> bool" where
  "pending_fence g i j =
     (valid_pos g i j
      \<and> \<not> s_confirmed (synapses g ! i)
      \<and> a_type (action_at g i j) = action_type_crm
      \<and> \<not> a_confirmed (action_at g i j)
      \<and> (case xml_task (a_xml (action_at g i j)) of
            None \<Rightarrow> False
          | Some task \<Rightarrow> str_casei_eq task CRM_OP_FENCE))"

text \<open>
  The invariant of the two loops, relative to the graph \<open>g0\<close> at the start: the lists
  and the id, type and XML of every action are those of \<open>g0\<close>, and a pending fencing
  action of \<open>g0\<close> that is by now confirmed, or whose synapse is by now confirmed, has
  been marked failed with \<^verbatim>\<open>last_action\<close> set.
\<close>

definition fence_done :: "crm_graph \<times> xml_node option \<Rightarrow> nat \<Rightarrow> nat \<Rightarrow> bool" where
  "fence_done gl i j = (a_failed (action_at (fst gl) i j) \<and> snd gl \<noteq> None)"

definition fail_inv :: "crm_graph \<Rightarrow> crm_graph \<times> xml_node option \<Rightarrow> bool" where
  "fail_inv g0 gl =
     (length (synapses (fst gl)) = length (synapses g0)
      \<and> (\<forall>i < length (synapses g0).
            length (s_actions (synapses (fst gl) ! i)) = length (s_actions (synapses g0 ! i))
            \<and> (\<forall>j < length (s_actions (synapses g0 ! i)).
                  a_id (action_at (fst gl) i j) = a_id (action_at g0 i j)
                  \<and> a_type (action_at (fst gl) i j) = a_type (action_at g0 i j)
                  \<and> a_xml (action_at (fst gl) i j) = a_xml (action_at g0 i j)
                  \<and> (pending_fence g0 i j
                       \<and> (a_confirmed (action_at (fst gl) i j)
                            \<or> s_confirmed (synapses (fst gl) ! i)) \<longrightarrow>
                       fence_done gl i j))))"

subsection \<open>\<^verbatim>\<open>tengine_stonith_notify\<close>\<close>

text \<open>
  \<^verbatim>\<open>crm_str_eq(a, b, TRUE)\<close> is \<^verbatim>\<open>g_strcmp0(a, b) == 0\<close>: equality of the two strings, two
  \<^verbatim>\<open>NULL\<close>s being equal. \<^verbatim>\<open>safe_str_eq\<close> ignores case; it is true on two \<^verbatim>\<open>NULL\<close>s and false
  on one. Both are library code outside these sources.
\<close>

fun safe_str_eq :: "string option \<Rightarrow> string option \<Rightarrow> bool" where
  "safe_str_eq None None = True"
| "safe_str_eq (Some a) (Some b) = str_casei_eq a b"
| "safe_str_eq _ _ = False"

record stonith_event =
  ev_result :: int
  ev_target :: "string option"
  ev_operation :: "string option"
  ev_action :: "string option"
  ev_executioner :: "string option"
  ev_origin :: "string option"
  ev_device :: "string option"
  ev_id :: "string option"
  ev_client_origin :: "string option"

text \<open>
  \<^verbatim>\<open>reboot(RB_HALT_SYSTEM)\<close> is compiled in only where \<^verbatim>\<open>RB_HALT_SYSTEM\<close> is defined; where it
  is, it either halts the machine and never returns, or fails and returns. \<^verbatim>\<open>exit(100)\<close>
  ends the process. A call ends with the process running, halted or exited.
\<close>

datatype halt_support = Halt_unsupported | Halt_fails | Halt_succeeds

datatype process_status = Running | Halted | Exited int

definition add_effect :: "te_effect \<Rightarrow> te_state \<Rightarrow> te_state" where
  "add_effect e st = st\<lparr>te_effects := te_effects st @ [e]\<rparr>"

text \<open>
  The parameters besides the library function: how the machine answers a halt, whether
  the block under \<^verbatim>\<open>SUPPORT_CMAN\<close> is compiled in and the cluster is a CMAN cluster, and
  the string \<^verbatim>\<open>"%s.%d"\<close> of system name and process id. \<open>peer_uuid\<close> of the state is
  \<^verbatim>\<open>crm_find_peer_full\<close> followed by \<^verbatim>\<open>crm_peer_uuid\<close>, \<open>None\<close> when no peer is found; the four
  \<^verbatim>\<open>crm_update_peer_*\<close> calls at the end are one effect.
\<close>

definition self_fenced :: "halt_support \<Rightarrow> te_state \<Rightarrow> te_state \<times> process_status" where
  "self_fenced halt st =
     (let st1 = add_effect Qb_log_fini (add_effect Crit_we_were_fenced st)
      in case halt of
           Halt_unsupported \<Rightarrow> (st1, Exited 100)
         | Halt_fails \<Rightarrow> (add_effect Reboot_halt_system st1, Exited 100)
         | Halt_succeeds \<Rightarrow> (add_effect Reboot_halt_system st1, Halted))"

definition fenced_peer_update ::
  "update_abort_priority_t \<Rightarrow> stonith_event \<Rightarrow> string \<Rightarrow> te_state \<Rightarrow> te_state" where
  "fenced_peer_update update_abort_priority ev uuid st =
     (let we_are_executioner = safe_str_eq (ev_executioner ev) (fsa_our_uname st);
          st1 =
            (if am_i_dc st then
               (let s = add_effect (Send_stonith_update (ev_target ev) uuid) st
                in if ev_client_origin ev \<noteq> None
                      \<and> \<not> safe_str_eq (ev_client_origin ev) (te_client_id s)
                   then abort_transition_graph update_abort_priority INFINITY tg_restart
                          ''External Fencing Operation'' None s
                   else s)
             else if fsa_our_dc st = None \<or> safe_str_eq (fsa_our_dc st) (ev_target ev) then
               (let s = (if we_are_executioner
                         then add_effect (Send_stonith_update (ev_target ev) uuid) st
                         else st)
                in s\<lparr>stonith_cleanup_list :=
                       stonith_cleanup_list s
                       @ (case ev_target ev of None \<Rightarrow> [] | Some t \<Rightarrow> [t])\<rparr>)
             else st)
      in add_effect (Peer_update_lost uuid) st1)"

definition tengine_stonith_notify ::
  "update_abort_priority_t \<Rightarrow> halt_support \<Rightarrow> bool \<Rightarrow> string \<Rightarrow>
   stonith_event option \<Rightarrow> te_state \<Rightarrow> te_state \<times> process_status" where
  "tengine_stonith_notify update_abort_priority halt cman fresh_client_id st_event st0 =
     (let st = (case te_client_id st0 of
                  None \<Rightarrow> st0\<lparr>te_client_id := Some fresh_client_id\<rparr>
                | Some _ \<Rightarrow> st0)
      in case st_event of
           None \<Rightarrow> (add_effect Err_no_notify_data st, Running)
         | Some ev \<Rightarrow>
             if ev_result ev = pcmk_ok \<and> ev_target ev = fsa_our_uname st then
               self_fenced halt st
             else
               (let st1 = (if ev_result ev = pcmk_ok
                              \<and> safe_str_eq (ev_operation ev) (Some T_STONITH_NOTIFY_FENCE)
                           then add_effect (St_fail_count_reset (ev_target ev)) st
                           else st);
                    st2 = (if cman \<and> ev_result ev = pcmk_ok
                           then add_effect (Fenced_external (ev_target ev)) st1
                           else st1)
                in if ev_result ev = pcmk_ok then
                     (case peer_uuid st2 (ev_target ev) of
                        None \<Rightarrow> (st2, Running)
                      | Some uuid \<Rightarrow>
                          (fenced_peer_update update_abort_priority ev uuid st2, Running))
                   else (st2, Running)))"

subsection \<open>Sample data\<close>

definition ex_update_abort_priority :: update_abort_priority_t where
  "ex_update_abort_priority graph priority action text =
     (let g1 = (if abort_priority graph < priority
                then graph\<lparr>abort_priority := priority, abort_reason := Some text\<rparr>
                else graph)
      in g1\<lparr>completion_action := action\<rparr>)"

definition ex_update_graph :: update_graph_t where
  "ex_update_graph g a =
     g\<lparr>synapses :=
         map (\<lambda>s. if s_confirmed s then s
                   else (let acts = map (\<lambda>b. if a_id b = a_id a
                                               then b\<lparr>a_confirmed := True\<rparr> else b)
                                        (s_actions s)
                         in s\<lparr>s_actions := acts, s_confirmed := list_all a_confirmed acts\<rparr>))
             (synapses g)\<rparr>"

definition ex_action :: "int \<Rightarrow> action_type_e \<Rightarrow> bool \<Rightarrow> string \<Rightarrow> crm_action" where
  "ex_action n ty conf task =
     \<lparr>a_id = n, a_type = ty, a_confirmed = conf, a_failed = False,
      a_xml = \<lparr>xml_ID = Some task, xml_task = Some task\<rparr>\<rparr>"

definition ex_graph :: crm_graph where
  "ex_graph =
     \<lparr>g_id = 4, abort_priority = 0, completion_action = tg_done, abort_reason = None,
      complete = False, batch_limit = 30,
      synapses =
        [\<lparr>s_id = 0, s_priority = 0, s_ready = True, s_executed = True, s_confirmed = False,
          s_actions = [ex_action 1 action_type_rsc True ''start'',
                       ex_action 2 action_type_crm False ''stonith''],
          s_inputs = []\<rparr>]\<rparr>"

definition ex_te :: "crmd_fsa_state \<Rightarrow> bool \<Rightarrow> te_state" where
  "ex_te s dc =
     \<lparr>fsa_state = s, am_i_dc = dc, st_required = True, fsa_our_uname = Some ''N1'',
      fsa_our_dc = Some ''N1'', transition_graph = Some ex_graph, fsa_pe_ref = Some ''ref'',
      transition_timer_period_ms = 0, transition_trigger = 0, stonith_reconnect = 0,
      stonith_api_state = Some stonith_connected_command, te_client_id = None,
      stonith_cleanup_list = [], peer_uuid = (\<lambda>n. n), te_effects = []\<rparr>"

definition ex_event :: "string \<Rightarrow> stonith_event" where
  "ex_event target =
     \<lparr>ev_result = 0, ev_target = Some target, ev_operation = Some ''st_notify_fence'',
      ev_action = Some ''off'', ev_executioner = Some ''N2'', ev_origin = Some ''N2'',
      ev_device = Some ''D1'', ev_id = Some ''abc'', ev_client_origin = Some ''crmd.1''\<rparr>"

section \<open>Executor client: requests without reply on the TLS transport\<close>

subsection \<open>Data\<close>

text \<open>
  Return codes: \<^verbatim>\<open>pcmk_rc_ok\<close> and \<^verbatim>\<open>pcmk_ok\<close> are 0; \<^verbatim>\<open>ETIME\<close> and \<^verbatim>\<open>ENOTCONN\<close> are the
  system's error numbers. Of a message the code reads the type
  (\<^verbatim>\<open>F_LRMD_REMOTE_MSG_TYPE\<close>), the id and, for the log line, the call id, which
  \<^verbatim>\<open>crm_element_value_int\<close> leaves at 0 when it is absent.
\<close>

definition pcmk_rc_ok :: int where "pcmk_rc_ok = 0"
definition ETIME :: int where "ETIME = 62"
definition ENOTCONN :: int where "ENOTCONN = 107"

datatype client_type = pcmk__client_ipc | pcmk__client_tls | pcmk__client_other

record remote_msg =
  msg_type :: "string option"
  msg_id :: int
  msg_callid :: int

datatype lrmd_log =
    Err_outdated_reply int
  | Err_outdated_reply_id int int
  | Err_empty_msg_type
  | Err_expected_reply string
  | Err_unsupported_connection_type
  | Err_tls_send_failed
  | Info_lost_connection

text \<open>
  The private part of a connection, as far as the functions below use it.
  \<open>tls_session\<close> says whether \<^verbatim>\<open>native->remote->tls_session\<close> is set. The counters are C
  \<^verbatim>\<open>int\<close>s, read with \<open>sint\<close>; an increment at the largest value wraps around.
  \<open>global_remote_msg_id\<close> is the file's static variable. \<open>dispatched\<close> lists the messages
  handed to \<^verbatim>\<open>lrmd_dispatch_internal\<close>, \<open>lrmd_logged\<close> the error and info lines written.
\<close>

record lrmd_private =
  ctype :: client_type
  tls_session :: bool
  expected_late_replies :: "32 word"
  pending_notify :: "remote_msg list"
  global_remote_msg_id :: "32 word"
  dispatched :: "remote_msg list"
  lrmd_logged :: "lrmd_log list"

definition msg_type_is :: "remote_msg \<Rightarrow> string \<Rightarrow> bool" where
  "msg_type_is m t = (case msg_type m of None \<Rightarrow> False | Some s \<Rightarrow> str_casei_eq s t)"

subsection \<open>Sending\<close>

definition lrmd_tls_disconnect :: "lrmd_private \<Rightarrow> lrmd_private" where
  "lrmd_tls_disconnect native = native\<lparr>tls_session := False, pending_notify := []\<rparr>"

text \<open>
  \<open>sent\<close> is the return code of \<^verbatim>\<open>lrmd__remote_send_xml\<close>, \<open>ipc_sent\<close> that of
  \<^verbatim>\<open>crm_ipc_send\<close>.
\<close>

definition lrmd_tls_send :: "int \<Rightarrow> lrmd_private \<Rightarrow> int \<times> lrmd_private" where
  "lrmd_tls_send sent native =
     (let next_id = global_remote_msg_id native + 1;
          native1 = native\<lparr>global_remote_msg_id := (if next_id \<le>s 0 then 1 else next_id)\<rparr>
      in if sent \<noteq> pcmk_rc_ok then
           (- ENOTCONN,
            lrmd_tls_disconnect
              (native1\<lparr>lrmd_logged := lrmd_logged native1 @ [Err_tls_send_failed]\<rparr>))
         else (pcmk_ok, native1))"

definition lrmd_send_xml_no_reply :: "int \<Rightarrow> int \<Rightarrow> lrmd_private \<Rightarrow> int \<times> lrmd_private" where
  "lrmd_send_xml_no_reply ipc_sent sent native =
     (case ctype native of
        pcmk__client_ipc \<Rightarrow> (ipc_sent, native)
      | pcmk__client_tls \<Rightarrow>
          (let r = lrmd_tls_send sent native
           in if fst r = pcmk_ok then
                (fst r, (snd r)\<lparr>expected_late_replies := expected_late_replies (snd r) + 1\<rparr>)
              else r)
      | pcmk__client_other \<Rightarrow>
          (- 1, native\<lparr>lrmd_logged := lrmd_logged native @ [Err_unsupported_connection_type]\<rparr>))"

subsection \<open>\<^verbatim>\<open>lrmd_tls_dispatch\<close>\<close>

text \<open>The body of the loop \<^verbatim>\<open>while (xml)\<close> for one message.\<close>

definition tls_dispatch_msg :: "remote_msg \<Rightarrow> lrmd_private \<Rightarrow> lrmd_private" where
  "tls_dispatch_msg m native =
     (if msg_type_is m ''notify'' then native\<lparr>dispatched := dispatched native @ [m]\<rparr>
      else if msg_type_is m ''reply'' then
        (if 0 <s expected_late_replies native
         then native\<lparr>expected_late_replies := expected_late_replies native - 1\<rparr>
         else native\<lparr>lrmd_logged := lrmd_logged native @ [Err_outdated_reply (msg_callid m)]\<rparr>)
      else native)"

text \<open>
  \<open>ready\<close> is the result of \<^verbatim>\<open>pcmk__remote_ready\<close>, \<open>read_rc\<close> that of
  \<^verbatim>\<open>pcmk__read_remote_message\<close>, and \<open>msgs\<close> the messages that successive calls of
  \<^verbatim>\<open>pcmk__remote_message_xml\<close> return before \<^verbatim>\<open>NULL\<close>. When the connection is neither ready
  nor timed out nothing is parsed.
\<close>

definition lrmd_tls_dispatch ::
  "int \<Rightarrow> int \<Rightarrow> remote_msg list \<Rightarrow> lrmd_private \<Rightarrow> int \<times> lrmd_private" where
  "lrmd_tls_dispatch ready read_rc msgs native =
     (if \<not> tls_session native then (0, native)
      else
        (let native1 = native\<lparr>dispatched := dispatched native @ pending_notify native,
                               pending_notify := []\<rparr>;
             rc = (if ready = pcmk_rc_ok then read_rc
                   else if ready = ETIME then pcmk_rc_ok
                   else ENOTCONN);
             native2 = (if ready = pcmk_rc_ok \<or> ready = ETIME
                        then fold tls_dispatch_msg msgs native1
                        else native1)
         in if rc = ENOTCONN then
              (0, lrmd_tls_disconnect
                    (native2\<lparr>lrmd_logged := lrmd_logged native2 @ [Info_lost_connection]\<rparr>))
            else (1, native2)))"

subsection \<open>\<^verbatim>\<open>lrmd_tls_recv_reply\<close>: one received message\<close>

text \<open>
  The part of the loop of \<^verbatim>\<open>lrmd_tls_recv_reply\<close> after a message has been read: the
  chain on the message type and id. The result is the reply when it is the awaited one,
  \<open>None\<close> when the loop goes on. The reads and the timeout before it are not modelled.
\<close>

definition tls_recv_reply_msg ::
  "int \<Rightarrow> remote_msg \<Rightarrow> lrmd_private \<Rightarrow> remote_msg option \<times> lrmd_private" where
  "tls_recv_reply_msg expected_reply_id m native =
     (case msg_type m of
        None \<Rightarrow> (None, native\<lparr>lrmd_logged := lrmd_logged native @ [Err_empty_msg_type]\<rparr>)
      | Some t \<Rightarrow>
          if str_casei_eq t ''notify'' then
            (None, native\<lparr>pending_notify := pending_notify native @ [m]\<rparr>)
          else if \<not> str_casei_eq t ''reply'' then
            (None, native\<lparr>lrmd_logged := lrmd_logged native @ [Err_expected_reply t]\<rparr>)
          else if msg_id m \<noteq> expected_reply_id then
            (if 0 <s expected_late_replies native
             then (None, native\<lparr>expected_late_replies := expected_late_replies native - 1\<rparr>)
             else (None, native\<lparr>lrmd_logged := lrmd_logged native
                                   @ [Err_outdated_reply_id expected_reply_id (msg_id m)]\<rparr>))
          else (Some m, native))"

subsection \<open>Sample data\<close>

definition ex_native :: "32 word \<Rightarrow> lrmd_private" where
  "ex_native late =
     \<lparr>ctype = pcmk__client_tls, tls_session = True, expected_late_replies = late,
      pending_notify = [], global_remote_msg_id = 16, dispatched = [], lrmd_logged = []\<rparr>"

definition ex_reply :: "int \<Rightarrow> remote_msg" where
  "ex_reply n = \<lparr>msg_type = Some ''reply'', msg_id = n, msg_callid = n\<rparr>"

section \<open>Fencing daemon: devices and commands (commands.c)\<close>

subsection \<open>Devices\<close>


text \<open>
  The fields of \<^verbatim>\<open>stonith_device_t\<close> that the functions below use. \<open>targets\<close> is the
  \<^verbatim>\<open>GList\<close> of host names, \<^verbatim>\<open>NULL\<close> being the empty list; \<open>targets_age\<close> is a \<^verbatim>\<open>time_t\<close>.
\<close>

record stonith_device =
  device_id :: string
  agent :: string
  priority :: int
  device_params :: str_table
  aliases :: str_table
  targets :: "string list"
  targets_age :: int

subsection \<open>\<^verbatim>\<open>build_port_aliases\<close>\<close>

text \<open>
  A C string ends at its first NUL byte. \<open>c_char_at s i\<close> is \<^verbatim>\<open>s[i]\<close> for \<open>i\<close> up to the
  length, the terminating NUL included; \<open>c_substr s start n\<close> is what
  \<^verbatim>\<open>strncpy(buf, s + start, n)\<close> leaves in a zeroed buffer of \<open>n + 1\<close> bytes.
\<close>

definition c_strlen :: "string \<Rightarrow> nat" where
  "c_strlen s = length (takeWhile (\<lambda>c. c \<noteq> CHR 0x00) s)"

definition c_char_at :: "string \<Rightarrow> nat \<Rightarrow> char" where
  "c_char_at s i = (if i < length s then s ! i else CHR 0x00)"

definition c_substr :: "string \<Rightarrow> nat \<Rightarrow> nat \<Rightarrow> string" where
  "c_substr s start n = take n (drop start s)"

text \<open>
  The local variables of the loop. \<open>ap_targets\<close> is the list behind the pointer
  \<^verbatim>\<open>targets\<close>, \<open>None\<close> when the pointer is \<^verbatim>\<open>NULL\<close>.
\<close>

record alias_parse =
  ap_name :: "string option"
  ap_last :: nat
  ap_added :: nat
  ap_aliases :: str_table
  ap_targets :: "string list option"

text \<open>
  The \<^verbatim>\<open>switch\<close> on \<^verbatim>\<open>hostmap[lpc]\<close>. The assignment characters are \<^verbatim>\<open>=\<close> and \<^verbatim>\<open>:\<close>; the
  delimiters are NUL, \<^verbatim>\<open>;\<close>, space and tab. The case for the comma is commented out in
  the source.
\<close>

definition alias_parse_char :: "string \<Rightarrow> nat \<Rightarrow> alias_parse \<Rightarrow> alias_parse" where
  "alias_parse_char hostmap lpc p =
     (let c = c_char_at hostmap lpc in
      if c = CHR ''='' \<or> c = CHR '':'' then
        (if ap_last p < lpc
         then p\<lparr>ap_name := Some (c_substr hostmap (ap_last p) (lpc - ap_last p))\<rparr>
         else p)\<lparr>ap_last := lpc + 1\<rparr>
      else if c = CHR 0x00 \<or> c = CHR '';'' \<or> c = CHR '' '' \<or> c = CHR 0x09 then
        (case ap_name p of
           Some name \<Rightarrow>
             (let v = c_substr hostmap (ap_last p) (lpc - ap_last p)
              in p\<lparr>ap_aliases := (ap_aliases p)(name \<mapsto> v),
                   ap_targets := map_option (\<lambda>ts. ts @ [v]) (ap_targets p),
                   ap_name := None,
                   ap_added := Suc (ap_added p)\<rparr>)
         | None \<Rightarrow> p)\<lparr>ap_last := lpc + 1\<rparr>
      else p)"

function build_port_aliases_loop :: "string \<Rightarrow> nat \<Rightarrow> alias_parse \<Rightarrow> alias_parse" where
  "build_port_aliases_loop hostmap lpc p =
     (if lpc \<le> c_strlen hostmap then
        (let p' = alias_parse_char hostmap lpc p
         in if c_char_at hostmap lpc = CHR 0x00 then p'
            else build_port_aliases_loop hostmap (Suc lpc) p')
      else p)"
  by pat_completeness auto
termination
  by (relation "measure (\<lambda>(hostmap, lpc, p). Suc (c_strlen hostmap) - lpc)") auto

definition build_port_aliases ::
  "string option \<Rightarrow> string list option \<Rightarrow> str_table \<times> string list option" where
  "build_port_aliases hostmap targets_ptr =
     (case hostmap of
        None \<Rightarrow> (Map.empty, targets_ptr)
      | Some h \<Rightarrow>
          (let p = build_port_aliases_loop h 0
                     \<lparr>ap_name = None, ap_last = 0, ap_added = 0, ap_aliases = Map.empty,
                      ap_targets = targets_ptr\<rparr>
           in (ap_aliases p, ap_targets p)))"

text \<open>
  For the proofs the same scan is written on the characters still to be read, with the
  text since \<^verbatim>\<open>last\<close> carried along instead of its two indices.
\<close>

record alias_scan =
  as_current :: string
  as_name :: "string option"
  as_added :: nat
  as_aliases :: str_table
  as_targets :: "string list option"

definition hostmap_delimiter :: "alias_scan \<Rightarrow> alias_scan" where
  "hostmap_delimiter s =
     (case as_name s of
        Some name \<Rightarrow>
          s\<lparr>as_aliases := (as_aliases s)(name \<mapsto> as_current s),
            as_targets := map_option (\<lambda>ts. ts @ [as_current s]) (as_targets s),
            as_name := None, as_added := Suc (as_added s), as_current := []\<rparr>
      | None \<Rightarrow> s\<lparr>as_current := []\<rparr>)"

definition hostmap_char :: "char \<Rightarrow> alias_scan \<Rightarrow> alias_scan" where
  "hostmap_char c s =
     (if c = CHR ''='' \<or> c = CHR '':'' then
        (if as_current s \<noteq> [] then s\<lparr>as_name := Some (as_current s), as_current := []\<rparr>
         else s)
      else if c = CHR 0x00 \<or> c = CHR '';'' \<or> c = CHR '' '' \<or> c = CHR 0x09 then
        hostmap_delimiter s
      else s\<lparr>as_current := as_current s @ [c]\<rparr>)"

definition hostmap_scan :: "string \<Rightarrow> alias_scan \<Rightarrow> alias_scan" where
  "hostmap_scan cs s = hostmap_delimiter (fold hostmap_char cs s)"

definition scan_of :: "string \<Rightarrow> nat \<Rightarrow> alias_parse \<Rightarrow> alias_scan" where
  "scan_of hostmap lpc p =
     \<lparr>as_current = c_substr hostmap (ap_last p) (lpc - ap_last p), as_name = ap_name p,
      as_added = ap_added p, as_aliases = ap_aliases p, as_targets = ap_targets p\<rparr>"

text \<open>
  Entries of a host map as the parser reads them: a name, an assignment character and a
  value, or a bare word. A word is made of characters that are neither assignment
  characters nor delimiters.
\<close>

datatype hostmap_entry = Assign string char string | Bare string

definition hostmap_word :: "string \<Rightarrow> bool" where
  "hostmap_word w =
     (\<forall>c \<in> set w. c \<noteq> CHR ''='' \<and> c \<noteq> CHR '':'' \<and> c \<noteq> CHR 0x00 \<and> c \<noteq> CHR '';''
                  \<and> c \<noteq> CHR '' '' \<and> c \<noteq> CHR 0x09)"

fun hostmap_entry_ok :: "hostmap_entry \<Rightarrow> bool" where
  "hostmap_entry_ok (Assign name a v) =
     (name \<noteq> [] \<and> hostmap_word name \<and> hostmap_word v \<and> (a = CHR ''='' \<or> a = CHR '':''))"
| "hostmap_entry_ok (Bare w) = hostmap_word w"

fun entry_text :: "hostmap_entry \<Rightarrow> string" where
  "entry_text (Assign name a v) = name @ [a] @ v"
| "entry_text (Bare w) = w"

definition hostmap_separator :: "char \<Rightarrow> bool" where
  "hostmap_separator d = (d = CHR '';'' \<or> d = CHR '' '' \<or> d = CHR 0x09)"

text \<open>A host map: entries each followed by a separator, then a last entry.\<close>

fun hostmap_text :: "(hostmap_entry \<times> char) list \<Rightarrow> hostmap_entry \<Rightarrow> string" where
  "hostmap_text [] final = entry_text final"
| "hostmap_text ((e, d) # es) final = entry_text e @ [d] @ hostmap_text es final"

fun entry_alias :: "hostmap_entry \<Rightarrow> (string \<times> string) list" where
  "entry_alias (Assign name a v) = [(name, v)]"
| "entry_alias (Bare w) = []"

definition hostmap_pairs :: "(hostmap_entry \<times> char) list \<Rightarrow> hostmap_entry \<Rightarrow> (string \<times> string) list" where
  "hostmap_pairs es final = concat (map (entry_alias \<circ> fst) es) @ entry_alias final"

definition add_aliases :: "(string \<times> string) list \<Rightarrow> str_table \<Rightarrow> str_table" where
  "add_aliases pairs table = fold (\<lambda>(name, v) t. t(name \<mapsto> v)) pairs table"

text \<open>What a run of entries with the aliases \<open>pairs\<close> does to the scan.\<close>

definition entry_done :: "(string \<times> string) list \<Rightarrow> alias_scan \<Rightarrow> alias_scan" where
  "entry_done pairs s =
     s\<lparr>as_aliases := add_aliases pairs (as_aliases s),
       as_targets := map_option (\<lambda>ts. ts @ map snd pairs) (as_targets s),
       as_added := as_added s + length pairs,
       as_name := None, as_current := []\<rparr>"

definition ex_hostmap_entries :: "(hostmap_entry \<times> char) list" where
  "ex_hostmap_entries =
     [(Assign ''node1'' CHR ''='' ''1'', CHR '' ''),
      (Bare ''junk'', CHR '';''),
      (Assign ''node2'' CHR '':'' ''2'', CHR 0x09)]"

subsection \<open>\<^verbatim>\<open>parse_host_line\<close> and \<^verbatim>\<open>parse_host_list\<close>\<close>









subsection \<open>\<^verbatim>\<open>can_fence_host_with_device\<close>\<close>







subsection \<open>\<^verbatim>\<open>sort_device_priority\<close>, \<^verbatim>\<open>stonith_fence\<close> and the fallback of \<^verbatim>\<open>exec_child_done\<close>\<close>

definition sort_device_priority :: "stonith_device \<Rightarrow> stonith_device \<Rightarrow> int" where
  "sort_device_priority a b =
     (let dev_a = a; dev_b = a
      in if priority dev_a > priority dev_b then - 1
         else if priority dev_a < priority dev_b then 1
         else 0)"

text \<open>
  \<^verbatim>\<open>g_list_sort\<close> is GLib's stable merge sort: the list is cut after its first half
  (rounded down), both halves are sorted, and the merge takes from the first list
  whenever the comparison is not positive.
\<close>

fun g_list_sort_merge :: "('a \<Rightarrow> 'a \<Rightarrow> int) \<Rightarrow> 'a list \<Rightarrow> 'a list \<Rightarrow> 'a list" where
  "g_list_sort_merge compare_func [] l2 = l2"
| "g_list_sort_merge compare_func l1 [] = l1"
| "g_list_sort_merge compare_func (x # l1) (y # l2) =
     (if compare_func x y \<le> 0 then x # g_list_sort_merge compare_func l1 (y # l2)
      else y # g_list_sort_merge compare_func (x # l1) l2)"

function g_list_sort :: "('a \<Rightarrow> 'a \<Rightarrow> int) \<Rightarrow> 'a list \<Rightarrow> 'a list" where
  "g_list_sort compare_func list =
     (if length list \<le> 1 then list
      else g_list_sort_merge compare_func
             (g_list_sort compare_func (take (length list div 2) list))
             (g_list_sort compare_func (drop (length list div 2) list)))"
  by pat_completeness auto
termination
  by (relation "measure (\<lambda>(compare_func, list). length list)") auto

text \<open>
  Of a command the device it runs on, the list \<^verbatim>\<open>device_list\<close> and the position
  \<^verbatim>\<open>device_next\<close> in it (the empty list for \<^verbatim>\<open>NULL\<close>). \<^verbatim>\<open>create_async_command\<close> zeroes the
  structure.
\<close>

record async_command =
  cmd_action :: string
  cmd_victim :: "string option"
  cmd_device :: "string option"
  device_list :: "stonith_device list"
  device_next :: "stonith_device list"

datatype stonith_rc = stonith_pending | st_err_none_available

text \<open>
  \<^verbatim>\<open>stonith_fence\<close> from the list of capable devices on, which
  \<^verbatim>\<open>g_hash_table_foreach(device_list, search_devices, &search)\<close> collects in the order of
  the hash table: the return code, the command and the device the command is scheduled
  on.
\<close>

definition stonith_fence ::
  "stonith_device list \<Rightarrow> async_command \<Rightarrow> stonith_rc \<times> async_command \<times> stonith_device option" where
  "stonith_fence capable cmd =
     (if length capable = 0 then (st_err_none_available, cmd, None)
      else
        (let sorted = g_list_sort sort_device_priority capable;
             device = hd sorted;
             cmd1 = cmd\<lparr>cmd_device := Some (device_id device)\<rparr>;
             cmd2 = (if length sorted > 1 then cmd1\<lparr>device_list := sorted\<rparr> else cmd1)
         in (stonith_pending, cmd2, Some device)))"

text \<open>
  The test of \<^verbatim>\<open>exec_child_done\<close> that moves a failed command to the next device: the
  device it is scheduled on and the command, or \<open>None\<close> when the result is final.
\<close>

definition exec_child_done_next ::
  "int \<Rightarrow> async_command \<Rightarrow> (stonith_device \<times> async_command) option" where
  "exec_child_done_next child_rc cmd =
     (if child_rc \<noteq> 0 \<and> device_next cmd \<noteq> [] then
        Some (hd (device_next cmd), cmd\<lparr>device_next := tl (device_next cmd)\<rparr>)
      else None)"

subsection \<open>Sample data\<close>

definition ex_device :: "string \<Rightarrow> int \<Rightarrow> string list \<Rightarrow> int \<Rightarrow> stonith_device" where
  "ex_device name prio cached age =
     \<lparr>device_id = name, agent = ''fence_test'', priority = prio,
      device_params = [''pcmk_host_check'' \<mapsto> ''dynamic-list''],
      aliases = [''node2'' \<mapsto> ''port2''], targets = cached, targets_age = age\<rparr>"




definition ex_command :: async_command where
  "ex_command =
     \<lparr>cmd_action = ''off'', cmd_victim = Some ''N2'', cmd_device = None, device_list = [],
      device_next = []\<rparr>"

section \<open>Properties of the resource history\<close>

lemmas ex_defs = ex_lrm_monitored_def ex_lrm_started_def ex_entry_def ex_lrm_empty_def ex_op_def ex_rsc_def
  ex_expected_rc_def ex_did_fail_def ex_start_params_def ex_stop_xml_def

lemmas const_defs = CRM_META_def RSC_NOTIFY_def RSC_STOP_def RSC_STATUS_def CRMD_ACTION_START_def
  CRMD_ACTION_STOP_def CRMD_ACTION_STATUS_def XML_ATTR_CRM_VERSION_def

lemmas upd_defs = update_history_cache_def history_record_recurring_def history_record_result_def
  new_history_entry_def history_free_recurring_ops_def recurring_match_def str_casei_eq_def c_tolower_def
  copy_instance_keys_def copy_meta_keys_def Let_def


subsection \<open>Recurring operations\<close>

lemma recurring_match_key: "recurring_match a b \<longleftrightarrow> recurring_key a = recurring_key b"
  by (auto simp: recurring_match_def recurring_key_def str_casei_eq_def)

lemma remove_eq_filter:
  "distinct (map recurring_key l) \<Longrightarrow>
   snd (history_remove_recurring_op l op) = filter (\<lambda>x. recurring_key x \<noteq> recurring_key op) l"
proof (induction l)
  case Nil
  then show ?case by simp
next
  case (Cons e es)
  show ?case
  proof (cases "recurring_match op e")
    case True
    then have k: "recurring_key e = recurring_key op"
      by (simp add: recurring_match_key)
    from Cons.prems have "recurring_key e \<notin> recurring_key ` set es"
      by simp
    with k have "\<forall>x\<in>set es. recurring_key x \<noteq> recurring_key op"
      by (metis imageI)
    then have "filter (\<lambda>x. recurring_key x \<noteq> recurring_key op) es = es"
      by (simp add: filter_id_conv)
    with True k show ?thesis by simp
  next
    case False
    then have "recurring_key e \<noteq> recurring_key op"
      by (simp add: recurring_match_key)
    with False Cons show ?thesis by simp
  qed
qed

lemma remove_distinct:
  "distinct (map recurring_key l) \<Longrightarrow>
   distinct (map recurring_key (snd (history_remove_recurring_op l op)))"
  by (simp add: remove_eq_filter distinct_map_filter)

lemma record_result_recurring:
  "recurring_op_list (history_record_result df t e op) = recurring_op_list e"
  by (simp add: history_record_result_def Let_def split: option.splits)

lemma record_recurring_distinct:
  "distinct (map recurring_key (recurring_op_list e)) \<Longrightarrow>
   distinct (map recurring_key (recurring_op_list (history_record_recurring e op)))"
  by (auto simp: history_record_recurring_def history_free_recurring_ops_def
                 remove_eq_filter distinct_map_filter)

lemma update_history_unique:
  assumes "history_unique lrm"
  shows "history_unique (update_history_cache xr df lrm r op)"
proof -
  have new: "distinct (map recurring_key (recurring_op_list (new_history_entry rid x)))" for rid x
    by (simp add: new_history_entry_def)
  show ?thesis
    using assms new remove_distinct record_recurring_distinct
    by (auto simp: history_unique_def update_history_cache_def Let_def record_result_recurring
             split: option.splits if_splits)
qed

lemma update_recurring_list:
  assumes "distinct (map recurring_key old)"
    and "old = (case resource_history lrm (rsc_id op) of None \<Rightarrow> [] | Some e \<Rightarrow> recurring_op_list e)"
    and "\<not> rsc_deleted op" "\<not> str_casei_eq (op_type op) RSC_NOTIFY"
    and "op_status op \<noteq> PCMK_LRM_OP_CANCELLED" "0 < interval_ms op"
    and "resource_history lrm (rsc_id op) \<noteq> None \<or> r \<noteq> None"
  shows "\<exists>e'. resource_history (update_history_cache xr df lrm r op) (rsc_id op) = Some e' \<and>
      recurring_op_list e' = op # filter (\<lambda>x. recurring_key x \<noteq> recurring_key op) old"
  using assms
  by (auto simp: update_history_cache_def Let_def record_result_recurring
                 history_record_recurring_def remove_eq_filter new_history_entry_def
           split: option.splits)

lemma distinct_exact_triple:
  "distinct (map recurring_key l) \<Longrightarrow>
   distinct (map (\<lambda>e. (rsc_id e, op_type e, interval_ms e)) l)"
  by (induction l) (force simp: recurring_key_def image_iff)+

text \<open>
  C7. The recurring list of every history entry holds at most one operation for each
  resource id, task and interval, and every update of the history cache keeps it so:
  if the lists of all entries are duplicate-free under the key that
  \<^verbatim>\<open>history_remove_recurring_op\<close> compares (task without regard to case), they are so
  after \<^verbatim>\<open>update_history_cache\<close>, hence also duplicate-free in the exact triple.
  Recording a recurring result (not deleted, not notify, not cancelled, interval above 0,
  entry present or resource information given) leaves the new operation in front of
  the old list without the entries of the same key.
\<close>

theorem recurring_ops_unique:
  "history_unique lrm \<Longrightarrow>
     history_unique (update_history_cache expected_rc did_fail lrm r op)
     \<and> (\<forall>rid e. resource_history (update_history_cache expected_rc did_fail lrm r op) rid = Some e \<longrightarrow>
            distinct (map (\<lambda>x. (rsc_id x, op_type x, interval_ms x)) (recurring_op_list e)))
     \<and> (\<not> rsc_deleted op \<and> \<not> str_casei_eq (op_type op) RSC_NOTIFY
          \<and> op_status op \<noteq> PCMK_LRM_OP_CANCELLED \<and> 0 < interval_ms op
          \<and> (resource_history lrm (rsc_id op) \<noteq> None \<or> r \<noteq> None) \<longrightarrow>
         (\<exists>e'. resource_history (update_history_cache expected_rc did_fail lrm r op) (rsc_id op) = Some e'
            \<and> recurring_op_list e' =
                op # filter (\<lambda>x. recurring_key x \<noteq> recurring_key op)
                       (case resource_history lrm (rsc_id op) of
                          None \<Rightarrow> []
                        | Some e \<Rightarrow> recurring_op_list e)))"
proof -
  assume inv: "history_unique lrm"
  let ?lrm' = "update_history_cache expected_rc did_fail lrm r op"
  let ?old = "case resource_history lrm (rsc_id op) of None \<Rightarrow> [] | Some e \<Rightarrow> recurring_op_list e"
  have inv': "history_unique ?lrm'"
    using inv by (rule update_history_unique)
  have exact: "\<forall>rid e. resource_history ?lrm' rid = Some e \<longrightarrow>
      distinct (map (\<lambda>x. (rsc_id x, op_type x, interval_ms x)) (recurring_op_list e))"
    using inv' by (auto simp: history_unique_def intro: distinct_exact_triple)
  have old: "distinct (map recurring_key ?old)"
    using inv by (auto simp: history_unique_def split: option.splits)
  show ?thesis
    using inv' exact update_recurring_list [OF old refl] by blast
qed

theorem recurring_ops_unique_witness:
  "history_unique ex_lrm_monitored
   \<and> history_unique (update_history_cache ex_expected_rc ex_did_fail ex_lrm_monitored (Some ex_rsc)
        (ex_op ''Monitor'' 10000 None))
   \<and> map op_type (recurring_op_list (the (resource_history
        (update_history_cache ex_expected_rc ex_did_fail ex_lrm_monitored (Some ex_rsc)
           (ex_op ''Monitor'' 10000 None)) ''R1''))) = [''Monitor'']"
proof -
  have h: "history_unique ex_lrm_monitored"
    by (simp add: history_unique_def ex_defs const_defs upd_defs recurring_key_def)
  have l: "map op_type (recurring_op_list (the (resource_history
        (update_history_cache ex_expected_rc ex_did_fail ex_lrm_monitored (Some ex_rsc)
           (ex_op ''Monitor'' 10000 None)) ''R1''))) = [''Monitor'']"
    by (simp add: ex_defs const_defs upd_defs)
  show ?thesis
    using h l recurring_ops_unique [OF h, of ex_expected_rc ex_did_fail "Some ex_rsc" "ex_op ''Monitor'' 10000 None"]
    by simp
qed

subsection \<open>Notify results\<close>

text \<open>
  C10. A result whose task is notify and that does not report the resource as deleted
  leaves the executor state, and with it every history entry (last, failed, stop\_params,
  recurring list), exactly as it was: \<^verbatim>\<open>update_history_cache\<close> returns before it looks
  the entry up.
\<close>

theorem notify_leaves_history_unchanged:
  "\<not> rsc_deleted op \<Longrightarrow> str_casei_eq (op_type op) RSC_NOTIFY \<Longrightarrow>
   update_history_cache expected_rc did_fail lrm r op = lrm"
  by (simp add: update_history_cache_def)

theorem notify_leaves_history_unchanged_witness:
  "\<not> rsc_deleted (ex_op ''notify'' 0 (Some ex_start_params))
   \<and> str_casei_eq (op_type (ex_op ''notify'' 0 (Some ex_start_params))) RSC_NOTIFY
   \<and> update_history_cache ex_expected_rc ex_did_fail ex_lrm_started (Some ex_rsc)
       (ex_op ''notify'' 0 (Some ex_start_params)) = ex_lrm_started"
proof -
  have a: "\<not> rsc_deleted (ex_op ''notify'' 0 (Some ex_start_params))"
    by (simp add: ex_op_def)
  have b: "str_casei_eq (op_type (ex_op ''notify'' 0 (Some ex_start_params))) RSC_NOTIFY"
    by (simp add: ex_op_def RSC_NOTIFY_def str_casei_eq_def)
  show ?thesis
    using a b notify_leaves_history_unchanged [OF a b] by simp
qed

subsection \<open>Parameters of a stop\<close>

lemma stop_merge_lookup:
  "copy_instance_keys cached (copy_meta_keys ps Map.empty) key =
     (if strstr key (CRM_META @ ''_'') then ps key else cached key)"
  by (simp add: copy_instance_keys_def copy_meta_keys_def split: option.splits)

lemma instance_copy_lookup:
  "copy_instance_keys ps Map.empty key = (if strstr key (CRM_META @ ''_'') then None else ps key)"
  by (simp add: copy_instance_keys_def split: option.splits)

lemma params_sanity: "params (construct_op_sanity op) = params op"
  by (simp add: construct_op_sanity_def Let_def)

lemma params_transition: "params (construct_op_transition t operation op) = params op"
  by (simp add: construct_op_transition_def split: option.splits)

lemma construct_op_params:
  "params (construct_op fs lrm (Some x) rid operation) =
     Some (if \<not> str_casei_eq operation RSC_STOP
           then (xml_params x)(CRM_META @ ''_op_target_rc'' := None)
           else stop_op_params lrm rid ((xml_params x)(CRM_META @ ''_op_target_rc'' := None)))"
  by (simp add: construct_op_def Let_def params_sanity params_transition)

text \<open>
  A \<^verbatim>\<open>pcmk_monitor_timeout\<close> of 3000000000 ms does not fit \<^verbatim>\<open>op->timeout\<close>: the value stored is
  negative, and the sanity block replaces it by the interval.
\<close>

lemma construct_op_monitor_timeout_wraps:
  "timeout (construct_op ''3.7.1'' None
      (Some (ex_stop_xml\<lparr>xml_interval_ms := Some 10000, xml_fence_params := True,
                           xml_monitor_timeout := Some 3000000000\<rparr>))
      ''R1'' ''monitor'') = 10000"
  by code_simp

lemma construct_stop_cached:
  assumes "str_casei_eq operation RSC_STOP"
    and "resource_history lrm rid = Some entry" and "stop_params entry = Some cached"
  shows "params (construct_op fs (Some lrm) (Some x) rid operation) =
           Some (copy_instance_keys cached
                   (copy_meta_keys ((xml_params x)(CRM_META @ ''_op_target_rc'' := None)) Map.empty))"
  using assms by (simp add: construct_op_params stop_op_params_def)

lemma construct_stop_uncached:
  assumes "str_casei_eq operation RSC_STOP"
    and "resource_history lrm rid = None \<or> (\<exists>entry. resource_history lrm rid = Some entry \<and> stop_params entry = None)"
  shows "params (construct_op fs (Some lrm) (Some x) rid operation) =
           Some ((xml_params x)(CRM_META @ ''_op_target_rc'' := None))"
  using assms by (auto simp: construct_op_params stop_op_params_def)

lemma str_casei_eq_left:
  "str_casei_eq t a \<Longrightarrow> str_casei_eq t b \<Longrightarrow> str_casei_eq a b"
  by (simp add: str_casei_eq_def)

lemma any_of_not_notify:
  assumes "strcase_any_of t [CRMD_ACTION_START, ''reload'', CRMD_ACTION_STATUS]"
  shows "\<not> str_casei_eq t RSC_NOTIFY"
proof
  assume n: "str_casei_eq t RSC_NOTIFY"
  have 1: "\<not> str_casei_eq CRMD_ACTION_START RSC_NOTIFY"
    by (simp add: str_casei_eq_def const_defs)
  have 2: "\<not> str_casei_eq ''reload'' RSC_NOTIFY"
    by (simp add: str_casei_eq_def const_defs c_tolower_def)
  have 3: "\<not> str_casei_eq CRMD_ACTION_STATUS RSC_NOTIFY"
    by (simp add: str_casei_eq_def const_defs)
  from assms n 1 2 3 show False
    using str_casei_eq_left [of t _ RSC_NOTIFY] by auto
qed

lemma update_captures_stop_params:
  assumes "\<not> rsc_deleted op"
    and "resource_history lrm (rsc_id op) \<noteq> None \<or> r \<noteq> None"
    and "op_status op \<noteq> PCMK_LRM_OP_CANCELLED" "\<not> did_fail op (expected_rc op)"
    and "interval_ms op = 0" "params op = Some ps"
    and "strcase_any_of (op_type op) [CRMD_ACTION_START, ''reload'', CRMD_ACTION_STATUS]"
  shows "\<exists>e'. resource_history (update_history_cache expected_rc did_fail lrm r op) (rsc_id op) = Some e'
           \<and> stop_params e' = Some (copy_instance_keys ps Map.empty)"
proof -
  have nn: "\<not> str_casei_eq (op_type op) RSC_NOTIFY"
    using assms(7) by (rule any_of_not_notify)
  have rr: "stop_params (history_record_recurring e op) = stop_params e" for e
    by (simp add: history_record_recurring_def history_free_recurring_ops_def)
  have res: "stop_params (history_record_result did_fail (expected_rc op) e op) = Some (copy_instance_keys ps Map.empty)" for e
    using assms by (simp add: history_record_result_def Let_def)
  show ?thesis
    using assms(1,2,3,5) nn
    by (auto simp: update_history_cache_def Let_def rr res split: option.splits)
qed



text \<open>
  C1, as the code has it. A stop constructed from a request for a resource whose history
  entry holds cached \<^verbatim>\<open>stop_params\<close> carries the cached value under every key without
  \<^verbatim>\<open>CRM_meta_\<close> and the request's value under every key with it. Without an entry, or
  without cached parameters, it carries the parameters of the request. A result for a
  resource that is not deleted, of a start, reload or monitor with interval 0 that is
  neither cancelled nor failed, and that carries a parameter table, stores the parameters
  without \<^verbatim>\<open>CRM_meta_\<close> as \<^verbatim>\<open>stop_params\<close> of the entry, so that the next stop built from
  a request for that resource carries them.
\<close>

theorem stop_uses_cached_params:
  "(str_casei_eq operation RSC_STOP \<and> resource_history lrm rid = Some entry
      \<and> stop_params entry = Some cached \<longrightarrow>
      (\<exists>used. params (construct_op fs (Some lrm) (Some x) rid operation) = Some used
         \<and> (\<forall>key. used key =
               (if strstr key (CRM_META @ ''_'')
                then ((xml_params x)(CRM_META @ ''_op_target_rc'' := None)) key
                else cached key))))
   \<and> (str_casei_eq operation RSC_STOP
        \<and> (resource_history lrm rid = None
             \<or> (\<exists>e. resource_history lrm rid = Some e \<and> stop_params e = None)) \<longrightarrow>
        params (construct_op fs (Some lrm) (Some x) rid operation) =
          Some ((xml_params x)(CRM_META @ ''_op_target_rc'' := None)))
   \<and> (\<not> rsc_deleted op
        \<and> op_status op \<noteq> PCMK_LRM_OP_CANCELLED \<and> \<not> did_fail op (expected_rc op)
        \<and> interval_ms op = 0 \<and> params op = Some ps
        \<and> strcase_any_of (op_type op) [CRMD_ACTION_START, ''reload'', CRMD_ACTION_STATUS] \<longrightarrow>
        (\<exists>e' captured.
            resource_history (update_history_cache expected_rc did_fail lrm (Some r) op) (rsc_id op)
              = Some e'
            \<and> stop_params e' = Some captured
            \<and> (\<forall>key. captured key = (if strstr key (CRM_META @ ''_'') then None else ps key)))
        \<and> (str_casei_eq operation RSC_STOP \<longrightarrow>
             (\<exists>used. params (construct_op fs
                                (Some (update_history_cache expected_rc did_fail lrm (Some r) op))
                                (Some x) (rsc_id op) operation) = Some used
                \<and> (\<forall>key. \<not> strstr key (CRM_META @ ''_'') \<longrightarrow> used key = ps key))))"
proof (intro conjI impI)
  assume "str_casei_eq operation RSC_STOP \<and> resource_history lrm rid = Some entry
      \<and> stop_params entry = Some cached"
  then show "\<exists>used. params (construct_op fs (Some lrm) (Some x) rid operation) = Some used
         \<and> (\<forall>key. used key =
               (if strstr key (CRM_META @ ''_'')
                then ((xml_params x)(CRM_META @ ''_op_target_rc'' := None)) key
                else cached key))"
    using construct_stop_cached [of operation lrm rid entry cached fs x]
    by (simp add: stop_merge_lookup)
next
  assume "str_casei_eq operation RSC_STOP
        \<and> (resource_history lrm rid = None
             \<or> (\<exists>e. resource_history lrm rid = Some e \<and> stop_params e = None))"
  then show "params (construct_op fs (Some lrm) (Some x) rid operation) =
          Some ((xml_params x)(CRM_META @ ''_op_target_rc'' := None))"
    by (simp add: construct_stop_uncached)
next
  assume a: "\<not> rsc_deleted op
        \<and> op_status op \<noteq> PCMK_LRM_OP_CANCELLED \<and> \<not> did_fail op (expected_rc op)
        \<and> interval_ms op = 0 \<and> params op = Some ps
        \<and> strcase_any_of (op_type op) [CRMD_ACTION_START, ''reload'', CRMD_ACTION_STATUS]"
  then obtain e' where e': "resource_history (update_history_cache expected_rc did_fail lrm (Some r) op) (rsc_id op) = Some e'"
      "stop_params e' = Some (copy_instance_keys ps Map.empty)"
    using update_captures_stop_params [of op lrm "Some r" did_fail expected_rc ps] by blast
  then show "\<exists>e' captured.
            resource_history (update_history_cache expected_rc did_fail lrm (Some r) op) (rsc_id op)
              = Some e'
            \<and> stop_params e' = Some captured
            \<and> (\<forall>key. captured key = (if strstr key (CRM_META @ ''_'') then None else ps key))"
    by (simp add: instance_copy_lookup)
  show "\<exists>used. params (construct_op fs
                                (Some (update_history_cache expected_rc did_fail lrm (Some r) op))
                                (Some x) (rsc_id op) operation) = Some used
                \<and> (\<forall>key. \<not> strstr key (CRM_META @ ''_'') \<longrightarrow> used key = ps key)"
    if "str_casei_eq operation RSC_STOP"
    using that e' construct_stop_cached [of operation "update_history_cache expected_rc did_fail lrm (Some r) op"
        "rsc_id op" e' "copy_instance_keys ps Map.empty" fs x]
    by (simp add: stop_merge_lookup instance_copy_lookup)
qed

theorem stop_uses_cached_params_witness:
  "the (params (construct_op ''3.7.1'' (Some ex_lrm_started) (Some ex_stop_xml) ''R1'' ''stop'')) ''port''
     = Some ''3306''
   \<and> the (params (construct_op ''3.7.1'' (Some ex_lrm_empty) (Some ex_stop_xml) ''R1'' ''stop'')) ''port''
     = Some ''3307''
   \<and> the (params (construct_op ''3.7.1''
          (Some (update_history_cache ex_expected_rc ex_did_fail ex_lrm_empty (Some ex_rsc)
                   (ex_op ''start'' 0 (Some ex_start_params))))
          (Some ex_stop_xml) ''R1'' ''stop'')) ''port'' = Some ''3306''"
proof -
  have stop: "str_casei_eq ''stop'' RSC_STOP"
    by (simp add: str_casei_eq_def RSC_STOP_def)
  have h1: "resource_history ex_lrm_started ''R1'' = Some (ex_entry (Some [''port'' \<mapsto> ''3306'']) [])"
    by (simp add: ex_lrm_started_def)
  have h2: "stop_params (ex_entry (Some [''port'' \<mapsto> ''3306'']) []) = Some [''port'' \<mapsto> ''3306'']"
    by (simp add: ex_entry_def)
  have h3: "resource_history ex_lrm_empty ''R1'' = None"
    by (simp add: ex_lrm_empty_def)
  have h4: "\<not> rsc_deleted (ex_op ''start'' 0 (Some ex_start_params))
      \<and> op_status (ex_op ''start'' 0 (Some ex_start_params)) \<noteq> PCMK_LRM_OP_CANCELLED
      \<and> \<not> ex_did_fail (ex_op ''start'' 0 (Some ex_start_params))
            (ex_expected_rc (ex_op ''start'' 0 (Some ex_start_params)))
      \<and> interval_ms (ex_op ''start'' 0 (Some ex_start_params)) = 0
      \<and> params (ex_op ''start'' 0 (Some ex_start_params)) = Some ex_start_params
      \<and> strcase_any_of (op_type (ex_op ''start'' 0 (Some ex_start_params)))
            [CRMD_ACTION_START, ''reload'', CRMD_ACTION_STATUS]"
    by (simp add: ex_op_def ex_did_fail_def ex_expected_rc_def str_casei_eq_def CRMD_ACTION_START_def)
  have nometa: "\<not> strstr ''port'' (CRM_META @ ''_'')"
    by (simp add: CRM_META_def)
  have rid: "rsc_id (ex_op ''start'' 0 (Some ex_start_params)) = ''R1''"
    by (simp add: ex_op_def)
  note t = stop_uses_cached_params [where operation = "''stop''" and lrm = ex_lrm_started
      and rid = "''R1''" and entry = "ex_entry (Some [''port'' \<mapsto> ''3306'']) []"
      and cached = "[''port'' \<mapsto> ''3306'']" and fs = "''3.7.1''" and x = ex_stop_xml]
  note u = stop_uses_cached_params [where operation = "''stop''" and lrm = ex_lrm_empty
      and rid = "''R1''" and fs = "''3.7.1''" and x = ex_stop_xml
      and op = "ex_op ''start'' 0 (Some ex_start_params)" and r = ex_rsc
      and did_fail = ex_did_fail and expected_rc = ex_expected_rc and ps = ex_start_params]
  have "\<exists>used. params (construct_op ''3.7.1'' (Some ex_lrm_started) (Some ex_stop_xml) ''R1'' ''stop'') = Some used
         \<and> (\<forall>key. used key =
               (if strstr key (CRM_META @ ''_'')
                then ((xml_params ex_stop_xml)(CRM_META @ ''_op_target_rc'' := None)) key
                else [''port'' \<mapsto> ''3306''] key))"
    using t [THEN conjunct1] stop h1 h2 by blast
  then obtain used1 where "params (construct_op ''3.7.1'' (Some ex_lrm_started) (Some ex_stop_xml) ''R1'' ''stop'') = Some used1"
      and "used1 ''port'' = (if strstr ''port'' (CRM_META @ ''_'')
                then ((xml_params ex_stop_xml)(CRM_META @ ''_op_target_rc'' := None)) ''port''
                else [''port'' \<mapsto> ''3306''] ''port'')"
    by blast
  then have 1: "the (params (construct_op ''3.7.1'' (Some ex_lrm_started) (Some ex_stop_xml) ''R1'' ''stop'')) ''port''
     = Some ''3306''"
    using nometa by simp
  have "params (construct_op ''3.7.1'' (Some ex_lrm_empty) (Some ex_stop_xml) ''R1'' ''stop'') =
          Some ((xml_params ex_stop_xml)(CRM_META @ ''_op_target_rc'' := None))"
    using u [THEN conjunct2, THEN conjunct1] stop h3 by blast
  then have 2: "the (params (construct_op ''3.7.1'' (Some ex_lrm_empty) (Some ex_stop_xml) ''R1'' ''stop'')) ''port''
     = Some ''3307''"
    by (simp add: ex_stop_xml_def CRM_META_def)
  have "\<exists>used. params (construct_op ''3.7.1''
          (Some (update_history_cache ex_expected_rc ex_did_fail ex_lrm_empty (Some ex_rsc)
                   (ex_op ''start'' 0 (Some ex_start_params))))
          (Some ex_stop_xml) (rsc_id (ex_op ''start'' 0 (Some ex_start_params))) ''stop'') = Some used
       \<and> (\<forall>key. \<not> strstr key (CRM_META @ ''_'') \<longrightarrow> used key = ex_start_params key)"
    using u [THEN conjunct2, THEN conjunct2] stop h4 by blast
  then obtain used3 where "params (construct_op ''3.7.1''
          (Some (update_history_cache ex_expected_rc ex_did_fail ex_lrm_empty (Some ex_rsc)
                   (ex_op ''start'' 0 (Some ex_start_params))))
          (Some ex_stop_xml) ''R1'' ''stop'') = Some used3"
      and "used3 ''port'' = ex_start_params ''port''"
    using nometa rid by auto
  then have 3: "the (params (construct_op ''3.7.1''
          (Some (update_history_cache ex_expected_rc ex_did_fail ex_lrm_empty (Some ex_rsc)
                   (ex_op ''start'' 0 (Some ex_start_params))))
          (Some ex_stop_xml) ''R1'' ''stop'')) ''port'' = Some ''3306''"
    by (simp add: ex_start_params_def)
  from 1 2 3 show ?thesis by simp
qed

text \<open>
  C1 as stated fails for a result without a parameter table and for a result of a
  deleted resource. \<^verbatim>\<open>update_history_cache\<close> captures \<^verbatim>\<open>stop_params\<close> only under the guard
  \<^verbatim>\<open>op->params && ...\<close>, and an event need not carry a table: \<^verbatim>\<open>lrmd_new_event\<close> leaves
  \<^verbatim>\<open>params\<close> \<^verbatim>\<open>NULL\<close>, and \<^verbatim>\<open>lrm_op_callback\<close> and \<^verbatim>\<open>process_lrm_event\<close> hand on whatever event
  their caller gives them. A start of \<^verbatim>\<open>R1\<close> with interval 0 that succeeded (status done,
  return code as expected) but carries no table is recorded as the last operation, and
  nothing is captured: in an empty history the new entry has no \<^verbatim>\<open>stop_params\<close>, and in a
  history with a cache the cache of the earlier start stays. The same start with its
  parameters and with \<^verbatim>\<open>rsc_deleted\<close> set, as the executor reports it for a resource removed
  in the meantime, returns at \<^verbatim>\<open>if (op->rsc_deleted)\<close>: no entry is made and nothing is
  captured.
\<close>

theorem start_without_params_counterexample:
  "op_status (ex_op ''start'' 0 None) = PCMK_LRM_OP_DONE
   \<and> \<not> ex_did_fail (ex_op ''start'' 0 None) (ex_expected_rc (ex_op ''start'' 0 None))
   \<and> interval_ms (ex_op ''start'' 0 None) = 0
   \<and> map_option last_op (resource_history
        (update_history_cache ex_expected_rc ex_did_fail ex_lrm_empty (Some ex_rsc)
           (ex_op ''start'' 0 None)) ''R1'') = Some (Some (ex_op ''start'' 0 None))
   \<and> map_option stop_params (resource_history
        (update_history_cache ex_expected_rc ex_did_fail ex_lrm_empty (Some ex_rsc)
           (ex_op ''start'' 0 None)) ''R1'') = Some None
   \<and> map_option stop_params (resource_history
        (update_history_cache ex_expected_rc ex_did_fail ex_lrm_started (Some ex_rsc)
           (ex_op ''start'' 0 None)) ''R1'') = Some (Some [''port'' \<mapsto> ''3306''])
   \<and> resource_history
        (update_history_cache ex_expected_rc ex_did_fail ex_lrm_empty (Some ex_rsc)
           ((ex_op ''start'' 0 (Some ex_start_params))\<lparr>rsc_deleted := True\<rparr>)) ''R1'' = None"
  by (simp add: upd_defs ex_defs ex_did_fail_def ex_expected_rc_def const_defs
                str_casei_eq_def Let_def)

section \<open>Properties of the transition engine\<close>

subsection \<open>Suppressed aborts\<close>

text \<open>
  C8. In the FSA states S\_STARTING, S\_PENDING, S\_NOT\_DC, S\_HALT, S\_STOPPING,
  S\_TERMINATE and S\_ILLEGAL a call of \<^verbatim>\<open>abort_transition_graph\<close> changes nothing: the
  graph keeps its abort priority and abort action, no trigger is set, no timer or FSA
  input is touched. In the same states \<^verbatim>\<open>te_graph_trigger\<close> returns without running the
  graph.
\<close>

theorem abort_suppressed_in_inactive_states:
  "fsa_state st \<in> {S_STARTING, S_PENDING, S_NOT_DC, S_HALT, S_STOPPING, S_TERMINATE, S_ILLEGAL} \<Longrightarrow>
   abort_transition_graph update_abort_priority prio action abort_text reason st = st
   \<and> te_graph_trigger run_graph throttle_get_total_job_limit st = st"
  by (auto simp: abort_transition_graph_def te_graph_trigger_def split: option.splits)

theorem abort_suppressed_in_inactive_states_witness:
  "fsa_state (ex_te S_NOT_DC False) \<in> {S_STARTING, S_PENDING, S_NOT_DC, S_HALT, S_STOPPING, S_TERMINATE, S_ILLEGAL}
   \<and> abort_transition_graph ex_update_abort_priority INFINITY tg_restart ''Stonith failure'' None
        (ex_te S_NOT_DC False) = ex_te S_NOT_DC False
   \<and> transition_graph (abort_transition_graph ex_update_abort_priority INFINITY tg_restart
        ''Stonith failure'' None (ex_te S_NOT_DC False)) = Some ex_graph
   \<and> abort_priority ex_graph = 0 \<and> completion_action ex_graph = tg_done
   \<and> abort_priority (the (transition_graph (abort_transition_graph ex_update_abort_priority INFINITY
        tg_restart ''Stonith failure'' None (ex_te S_IDLE True)))) = INFINITY"
proof -
  have h: "fsa_state (ex_te S_NOT_DC False) \<in> {S_STARTING, S_PENDING, S_NOT_DC, S_HALT, S_STOPPING, S_TERMINATE, S_ILLEGAL}"
    by (simp add: ex_te_def)
  have g: "transition_graph (ex_te S_NOT_DC False) = Some ex_graph"
    by (simp add: ex_te_def)
  have p: "abort_priority ex_graph = 0 \<and> completion_action ex_graph = tg_done"
    by (simp add: ex_graph_def)
  have q: "abort_priority (the (transition_graph (abort_transition_graph ex_update_abort_priority INFINITY
        tg_restart ''Stonith failure'' None (ex_te S_IDLE True)))) = INFINITY"
    by (simp add: abort_transition_graph_def ex_te_def ex_graph_def ex_update_abort_priority_def INFINITY_def)
  show ?thesis
    using h g p q
      abort_suppressed_in_inactive_states [OF h, of ex_update_abort_priority INFINITY tg_restart
        "''Stonith failure''" None]
    by simp
qed


subsection \<open>A notification that this node was fenced\<close>

lemma self_fenced_status:
  "snd (self_fenced halt st) = (if halt = Halt_succeeds then Halted else Exited 100)"
  by (cases halt) (simp_all add: self_fenced_def Let_def)

lemma self_fenced_effects:
  "te_effects (fst (self_fenced halt st)) =
     te_effects st @ [Crit_we_were_fenced, Qb_log_fini]
       @ (if halt = Halt_unsupported then [] else [Reboot_halt_system])"
  by (cases halt) (simp_all add: self_fenced_def add_effect_def Let_def)

lemma notify_self:
  assumes "ev_result ev = pcmk_ok" and "ev_target ev = fsa_our_uname st"
  shows "tengine_stonith_notify uap halt cman cid (Some ev) st =
           self_fenced halt (case te_client_id st of None \<Rightarrow> st\<lparr>te_client_id := Some cid\<rparr> | Some _ \<Rightarrow> st)"
  using assms by (simp add: tengine_stonith_notify_def Let_def split: option.splits)

lemma self_fence_exact_name:
  assumes "ev_result ev = pcmk_ok" and "ev_target ev = fsa_our_uname st"
  shows "snd (tengine_stonith_notify uap halt cman cid (Some ev) st)
           = (if halt = Halt_succeeds then Halted else Exited 100)"
    and "te_effects (fst (tengine_stonith_notify uap halt cman cid (Some ev) st))
           = te_effects st @ [Crit_we_were_fenced, Qb_log_fini]
               @ (if halt = Halt_unsupported then [] else [Reboot_halt_system])"
proof -
  let ?st = "case te_client_id st of None \<Rightarrow> st\<lparr>te_client_id := Some cid\<rparr> | Some _ \<Rightarrow> st"
  have n: "tengine_stonith_notify uap halt cman cid (Some ev) st = self_fenced halt ?st"
    using assms by (rule notify_self)
  have e: "te_effects ?st = te_effects st"
    by (simp split: option.splits)
  show "snd (tengine_stonith_notify uap halt cman cid (Some ev) st)
     = (if halt = Halt_succeeds then Halted else Exited 100)"
    by (simp only: n self_fenced_status)
  show "te_effects (fst (tengine_stonith_notify uap halt cman cid (Some ev) st))
     = te_effects st @ [Crit_we_were_fenced, Qb_log_fini]
         @ (if halt = Halt_unsupported then [] else [Reboot_halt_system])"
    by (simp only: n self_fenced_effects e)
qed

text \<open>
  C5 does not hold of the code for every spelling of the local node name. The test for
  a notification about this node is \<^verbatim>\<open>crm_str_eq(st_event->target, fsa_our_uname, TRUE)\<close>,
  equality byte for byte, while the same function compares the local node name with the
  executioner, and the leader with the target, by \<^verbatim>\<open>safe_str_eq\<close>, without regard to case.
  On the node \<^verbatim>\<open>N1\<close> a successful notification with target \<^verbatim>\<open>N1\<close> halts the machine or
  exits with code 100. With target \<^verbatim>\<open>n1\<close>, which \<^verbatim>\<open>safe_str_eq\<close> takes for the local node
  and for its leader \<^verbatim>\<open>N1\<close>, nothing is halted: the callback returns with the process
  running after it has reset the fail count, put the target on the clean-up list and
  marked the peer found under that name as lost.
\<close>

theorem self_fence_misses_case_variant:
  "ev_result (ex_event ''n1'') = pcmk_ok
   \<and> fsa_our_uname (ex_te S_NOT_DC False) = Some ''N1''
   \<and> safe_str_eq (ev_target (ex_event ''n1'')) (fsa_our_uname (ex_te S_NOT_DC False))
   \<and> snd (tengine_stonith_notify ex_update_abort_priority Halt_succeeds False ''crmd.77''
             (Some (ex_event ''N1'')) (ex_te S_NOT_DC False)) = Halted
   \<and> snd (tengine_stonith_notify ex_update_abort_priority Halt_unsupported False ''crmd.77''
             (Some (ex_event ''N1'')) (ex_te S_NOT_DC False)) = Exited 100
   \<and> snd (tengine_stonith_notify ex_update_abort_priority Halt_succeeds False ''crmd.77''
             (Some (ex_event ''n1'')) (ex_te S_NOT_DC False)) = Running
   \<and> te_effects (fst (tengine_stonith_notify ex_update_abort_priority Halt_succeeds False
             ''crmd.77'' (Some (ex_event ''n1'')) (ex_te S_NOT_DC False)))
       = [St_fail_count_reset (Some ''n1''), Peer_update_lost ''n1'']
   \<and> stonith_cleanup_list (fst (tengine_stonith_notify ex_update_abort_priority Halt_succeeds
             False ''crmd.77'' (Some (ex_event ''n1'')) (ex_te S_NOT_DC False))) = [''n1'']"
  by (simp add: tengine_stonith_notify_def fenced_peer_update_def self_fenced_def add_effect_def
                ex_event_def ex_te_def pcmk_ok_def T_STONITH_NOTIFY_FENCE_def str_casei_eq_def
                c_tolower_def Let_def)

subsection \<open>Loss of the fencing daemon\<close>

lemma nth_nth_in_concat:
  "k < length xss \<Longrightarrow> j < length (xss ! k) \<Longrightarrow> xss ! k ! j \<in> set (concat xss)"
  by (auto intro!: bexI [of _ "xss ! k"])

lemma concat_nth_inj:
  "distinct (concat xss) \<Longrightarrow> i < length xss \<Longrightarrow> j < length (xss ! i) \<Longrightarrow>
   i' < length xss \<Longrightarrow> j' < length (xss ! i') \<Longrightarrow> xss ! i ! j = xss ! i' ! j' \<Longrightarrow>
   i = i' \<and> j = j'"
proof (induction xss arbitrary: i i')
  case Nil
  then show ?case by simp
next
  case (Cons xs xss)
  have d: "distinct xs" "distinct (concat xss)" "set xs \<inter> set (concat xss) = {}"
    using Cons.prems(1) by auto
  show ?case
  proof (cases i)
    case i0: 0
    show ?thesis
    proof (cases i')
      case 0
      with i0 Cons.prems d(1) show ?thesis by (simp add: nth_eq_iff_index_eq)
    next
      case (Suc k)
      have 1: "xs ! j \<in> set xs"
        using i0 Cons.prems(3) by simp
      have 2: "xss ! k ! j' \<in> set (concat xss)"
        using Suc Cons.prems(4,5) by (intro nth_nth_in_concat) simp_all
      have 3: "xs ! j = xss ! k ! j'"
        using i0 Suc Cons.prems(6) by simp
      from 1 2 3 d(3) show ?thesis by (metis disjoint_iff)
    qed
  next
    case iS: (Suc l)
    show ?thesis
    proof (cases i')
      case 0
      have 1: "xs ! j' \<in> set xs"
        using 0 Cons.prems(5) by simp
      have 2: "xss ! l ! j \<in> set (concat xss)"
        using iS Cons.prems(2,3) by (intro nth_nth_in_concat) simp_all
      have 3: "xss ! l ! j = xs ! j'"
        using iS 0 Cons.prems(6) by simp
      from 1 2 3 d(3) show ?thesis by (metis disjoint_iff)
    next
      case (Suc k)
      with iS Cons.prems Cons.IH [of l k] d(2) show ?thesis by simp
    qed
  qed
qed

lemma unique_ids_pos:
  assumes "unique_action_ids g" "valid_pos g i j" "valid_pos g i' j'"
    and "a_id (action_at g i j) = a_id (action_at g i' j')"
  shows "i = i' \<and> j = j'"
proof -
  let ?xss = "map (\<lambda>s. map a_id (s_actions s)) (synapses g)"
  have "distinct (concat ?xss)"
    using assms(1) by (simp add: unique_action_ids_def)
  moreover have "i < length ?xss" "j < length (?xss ! i)" "i' < length ?xss" "j' < length (?xss ! i')"
    using assms(2,3) by (simp_all add: valid_pos_def)
  moreover have "?xss ! i ! j = ?xss ! i' ! j'"
    using assms(2,3,4) by (simp add: valid_pos_def action_at_def)
  ultimately show ?thesis by (rule concat_nth_inj)
qed

lemma set_action_len [simp]: "length (synapses (set_action g i j a)) = length (synapses g)"
  by (simp add: set_action_def)

lemma set_action_alen [simp]:
  "i' < length (synapses g) \<Longrightarrow>
   length (s_actions (synapses (set_action g i j a) ! i')) = length (s_actions (synapses g ! i'))"
  by (cases "i' = i") (simp_all add: set_action_def)

lemma set_action_sconf [simp]:
  "i' < length (synapses g) \<Longrightarrow>
   s_confirmed (synapses (set_action g i j a) ! i') = s_confirmed (synapses g ! i')"
  by (cases "i' = i") (simp_all add: set_action_def)

lemma set_action_at:
  "valid_pos g i' j' \<Longrightarrow>
   action_at (set_action g i j a) i' j' = (if i' = i \<and> j' = j then a else action_at g i' j')"
  by (cases "i' = i"; cases "j' = j") (simp_all add: set_action_def action_at_def valid_pos_def)


lemma frameD:
  assumes "update_graph_frame upd"
  shows "length (synapses (upd g a)) = length (synapses g)"
    and "i < length (synapses g) \<Longrightarrow>
         length (s_actions (synapses (upd g a) ! i)) = length (s_actions (synapses g ! i))"
    and "valid_pos g i j \<Longrightarrow> a_id (action_at (upd g a) i j) = a_id (action_at g i j)"
    and "valid_pos g i j \<Longrightarrow> a_type (action_at (upd g a) i j) = a_type (action_at g i j)"
    and "valid_pos g i j \<Longrightarrow> a_xml (action_at (upd g a) i j) = a_xml (action_at g i j)"
    and "valid_pos g i j \<Longrightarrow> a_failed (action_at g i j) \<Longrightarrow> a_failed (action_at (upd g a) i j)"
    and "valid_pos g i j \<Longrightarrow> a_confirmed (action_at (upd g a) i j) \<Longrightarrow>
         a_confirmed (action_at g i j) \<or> a_id (action_at g i j) = a_id a"
    and "valid_pos g i j \<Longrightarrow> s_confirmed (synapses (upd g a) ! i) \<Longrightarrow>
         s_confirmed (synapses g ! i) \<or> a_confirmed (action_at (upd g a) i j)"
  using assms unfolding update_graph_frame_def valid_pos_def by metis+

lemma fail_invD:
  assumes "fail_inv g0 gl"
  shows "length (synapses (fst gl)) = length (synapses g0)"
    and "i < length (synapses g0) \<Longrightarrow>
         length (s_actions (synapses (fst gl) ! i)) = length (s_actions (synapses g0 ! i))"
    and "valid_pos g0 i j \<Longrightarrow> a_id (action_at (fst gl) i j) = a_id (action_at g0 i j)"
    and "valid_pos g0 i j \<Longrightarrow> a_type (action_at (fst gl) i j) = a_type (action_at g0 i j)"
    and "valid_pos g0 i j \<Longrightarrow> a_xml (action_at (fst gl) i j) = a_xml (action_at g0 i j)"
    and "pending_fence g0 i j \<Longrightarrow> a_confirmed (action_at (fst gl) i j) \<Longrightarrow> fence_done gl i j"
    and "pending_fence g0 i j \<Longrightarrow> s_confirmed (synapses (fst gl) ! i) \<Longrightarrow> fence_done gl i j"
  using assms unfolding fail_inv_def valid_pos_def pending_fence_def by metis+

lemma fail_inv_valid: "fail_inv g0 gl \<Longrightarrow> valid_pos (fst gl) i j = valid_pos g0 i j"
  unfolding fail_inv_def valid_pos_def by auto

lemma fail_invI:
  assumes "length (synapses (fst gl)) = length (synapses g0)"
    and "\<And>i. i < length (synapses g0) \<Longrightarrow>
         length (s_actions (synapses (fst gl) ! i)) = length (s_actions (synapses g0 ! i))"
    and "\<And>i j. valid_pos g0 i j \<Longrightarrow> a_id (action_at (fst gl) i j) = a_id (action_at g0 i j)"
    and "\<And>i j. valid_pos g0 i j \<Longrightarrow> a_type (action_at (fst gl) i j) = a_type (action_at g0 i j)"
    and "\<And>i j. valid_pos g0 i j \<Longrightarrow> a_xml (action_at (fst gl) i j) = a_xml (action_at g0 i j)"
    and "\<And>i j. pending_fence g0 i j \<Longrightarrow> a_confirmed (action_at (fst gl) i j) \<Longrightarrow> fence_done gl i j"
    and "\<And>i j. pending_fence g0 i j \<Longrightarrow> s_confirmed (synapses (fst gl) ! i) \<Longrightarrow> fence_done gl i j"
  shows "fail_inv g0 gl"
  unfolding fail_inv_def
  using assms by (auto simp: valid_pos_def)

lemma fail_inv_init: "fail_inv g0 (g0, None)"
  by (rule fail_invI) (auto simp: pending_fence_def)


lemma fail_action_skip:
  assumes "valid_pos (fst gl) i j"
    and "a_type (action_at (fst gl) i j) \<noteq> action_type_crm \<or> a_confirmed (action_at (fst gl) i j)
         \<or> (case xml_task (a_xml (action_at (fst gl) i j)) of None \<Rightarrow> True
             | Some t \<Rightarrow> \<not> str_casei_eq t CRM_OP_FENCE)"
  shows "fail_action upd i j gl = gl"
  using assms by (auto simp: fail_action_def Let_def split: option.splits)

lemma fail_action_hit:
  assumes "valid_pos (fst gl) i j"
    and "a_type (action_at (fst gl) i j) = action_type_crm" "\<not> a_confirmed (action_at (fst gl) i j)"
    and "xml_task (a_xml (action_at (fst gl) i j)) = Some t" "str_casei_eq t CRM_OP_FENCE"
  shows "fail_action upd i j gl =
           (upd (set_action (fst gl) i j ((action_at (fst gl) i j)\<lparr>a_failed := True\<rparr>))
                ((action_at (fst gl) i j)\<lparr>a_failed := True\<rparr>),
            Some (a_xml (action_at (fst gl) i j)))"
  using assms by (simp add: fail_action_def Let_def)

lemma fail_action_step:
  assumes F: "update_graph_frame upd" and U: "unique_action_ids g0"
    and inv: "fail_inv g0 gl" and v: "valid_pos g0 i j"
  shows "fail_inv g0 (fail_action upd i j gl)
         \<and> (\<forall>i' j'. valid_pos g0 i' j' \<longrightarrow> fence_done gl i' j' \<longrightarrow>
                fence_done (fail_action upd i j gl) i' j')
         \<and> (pending_fence g0 i j \<longrightarrow> fence_done (fail_action upd i j gl) i j)"
proof -
  let ?h = "fst gl"
  let ?a = "action_at ?h i j"
  have vh: "valid_pos ?h i j"
    using inv v by (simp add: fail_inv_valid)
  show ?thesis
  proof (cases "a_type ?a = action_type_crm \<and> \<not> a_confirmed ?a
                \<and> (\<exists>t. xml_task (a_xml ?a) = Some t \<and> str_casei_eq t CRM_OP_FENCE)")
    case False
    then have skip: "fail_action upd i j gl = gl"
      using vh by (intro fail_action_skip) (auto split: option.splits)
    have "pending_fence g0 i j \<Longrightarrow> fence_done gl i j"
    proof -
      assume p: "pending_fence g0 i j"
      then have "a_type ?a = action_type_crm"
        "\<exists>t. xml_task (a_xml ?a) = Some t \<and> str_casei_eq t CRM_OP_FENCE"
        using fail_invD(4,5) [OF inv v] by (auto simp: pending_fence_def split: option.splits)
      with False have "a_confirmed ?a" by blast
      with p show "fence_done gl i j" using fail_invD(6) [OF inv] by blast
    qed
    with skip inv show ?thesis by simp
  next
    case True
    then obtain t where t: "xml_task (a_xml ?a) = Some t" "str_casei_eq t CRM_OP_FENCE"
      and ty: "a_type ?a = action_type_crm" and nc: "\<not> a_confirmed ?a"
      by blast
    let ?a' = "?a\<lparr>a_failed := True\<rparr>"
    let ?h1 = "set_action ?h i j ?a'"
    let ?h2 = "upd ?h1 ?a'"
    let ?r = "(?h2, Some (a_xml ?a))"
    have hit: "fail_action upd i j gl = ?r"
      using vh ty nc t by (rule fail_action_hit)
    have v1: "valid_pos ?h1 i' j' = valid_pos g0 i' j'" for i' j'
      using inv by (auto simp: valid_pos_def fail_inv_def)
    have at1: "action_at ?h1 i' j' = (if i' = i \<and> j' = j then ?a' else action_at ?h i' j')"
      if "valid_pos g0 i' j'" for i' j'
      using that inv by (intro set_action_at) (simp add: fail_inv_valid)
    have sc1: "s_confirmed (synapses ?h1 ! i') = s_confirmed (synapses ?h ! i')"
      if "i' < length (synapses g0)" for i'
      using that fail_invD(1) [OF inv] by simp
    have len: "length (synapses ?h2) = length (synapses g0)"
      using frameD(1) [OF F] fail_invD(1) [OF inv] by simp
    have alen: "length (s_actions (synapses ?h2 ! i')) = length (s_actions (synapses g0 ! i'))"
      if "i' < length (synapses g0)" for i'
      using that frameD(2) [OF F, of i' ?h1 ?a'] fail_invD(1,2) [OF inv] by simp
    have stat: "a_id (action_at ?h2 i' j') = a_id (action_at g0 i' j')
        \<and> a_type (action_at ?h2 i' j') = a_type (action_at g0 i' j')
        \<and> a_xml (action_at ?h2 i' j') = a_xml (action_at g0 i' j')"
      if w: "valid_pos g0 i' j'" for i' j'
    proof -
      have w1: "valid_pos ?h1 i' j'" using w v1 by simp
      show ?thesis
        using frameD(3,4,5) [OF F w1, of ?a'] at1 [OF w] fail_invD(3,4,5) [OF inv w]
        by auto
    qed
    have fmono: "a_failed (action_at ?h2 i' j')"
      if w: "valid_pos g0 i' j'" and f: "a_failed (action_at ?h i' j') \<or> (i' = i \<and> j' = j)" for i' j'
    proof -
      have w1: "valid_pos ?h1 i' j'" using w v1 by simp
      have "a_failed (action_at ?h1 i' j')" using f at1 [OF w] by auto
      then show ?thesis using frameD(6) [OF F w1] by blast
    qed
    have stable: "fence_done ?r i' j'" if w: "valid_pos g0 i' j'" and d: "fence_done gl i' j'" for i' j'
      using fmono [OF w] d by (simp add: fence_done_def)
    have here: "fence_done ?r i j"
      using fmono [OF v] by (simp add: fence_done_def)
    have conf: "fence_done ?r i' j'"
      if p: "pending_fence g0 i' j'" and c: "a_confirmed (action_at ?h2 i' j')" for i' j'
    proof -
      have w: "valid_pos g0 i' j'" using p by (simp add: pending_fence_def)
      have w1: "valid_pos ?h1 i' j'" using w v1 by simp
      from frameD(7) [OF F w1 c]
      consider "a_confirmed (action_at ?h1 i' j')" | "a_id (action_at ?h1 i' j') = a_id ?a'"
        by blast
      then show ?thesis
      proof cases
        case 1
        show ?thesis
        proof (cases "i' = i \<and> j' = j")
          case True
          then show ?thesis using here by simp
        next
          case False
          with 1 at1 [OF w] have "a_confirmed (action_at ?h i' j')" by auto
          with p have "fence_done gl i' j'" using fail_invD(6) [OF inv] by blast
          then show ?thesis using stable [OF w] by blast
        qed
      next
        case 2
        have "a_id (action_at ?h1 i' j') = a_id (action_at g0 i' j')"
          using at1 [OF w] fail_invD(3) [OF inv w] fail_invD(3) [OF inv v] by auto
        moreover have "a_id ?a' = a_id (action_at g0 i j)"
          using fail_invD(3) [OF inv v] by simp
        ultimately have "a_id (action_at g0 i' j') = a_id (action_at g0 i j)"
          using 2 by simp
        with U w v have "i' = i \<and> j' = j" by (rule unique_ids_pos)
        then show ?thesis using here by simp
      qed
    qed
    have syn: "fence_done ?r i' j'"
      if p: "pending_fence g0 i' j'" and c: "s_confirmed (synapses ?h2 ! i')" for i' j'
    proof -
      have w: "valid_pos g0 i' j'" using p by (simp add: pending_fence_def)
      have w1: "valid_pos ?h1 i' j'" using w v1 by simp
      from frameD(8) [OF F w1 c]
      consider "s_confirmed (synapses ?h1 ! i')" | "a_confirmed (action_at ?h2 i' j')"
        by blast
      then show ?thesis
      proof cases
        case 1
        then have "s_confirmed (synapses ?h ! i')"
          using sc1 w by (simp add: valid_pos_def)
        with p have "fence_done gl i' j'" using fail_invD(7) [OF inv] by blast
        then show ?thesis using stable [OF w] by blast
      next
        case 2
        with p show ?thesis by (rule conf)
      qed
    qed
    have "fail_inv g0 ?r"
      by (rule fail_invI) (use len alen stat conf syn in simp_all)
    with stable here hit show ?thesis by simp
  qed
qed


lemma fail_actions_fold:
  assumes F: "update_graph_frame upd" and U: "unique_action_ids g0"
    and inv: "fail_inv g0 gl" and i: "i < length (synapses g0)"
  shows "k \<le> length (s_actions (synapses g0 ! i)) \<Longrightarrow>
         fail_inv g0 (fold (fail_action upd i) [0..<k] gl)
         \<and> (\<forall>i' j'. valid_pos g0 i' j' \<longrightarrow> fence_done gl i' j' \<longrightarrow>
                fence_done (fold (fail_action upd i) [0..<k] gl) i' j')
         \<and> (\<forall>j < k. pending_fence g0 i j \<longrightarrow> fence_done (fold (fail_action upd i) [0..<k] gl) i j)"
proof (induction k)
  case 0
  then show ?case using inv by simp
next
  case (Suc k)
  let ?m = "fold (fail_action upd i) [0..<k] gl"
  have ih: "fail_inv g0 ?m"
    "\<And>i' j'. valid_pos g0 i' j' \<Longrightarrow> fence_done gl i' j' \<Longrightarrow> fence_done ?m i' j'"
    "\<And>j. j < k \<Longrightarrow> pending_fence g0 i j \<Longrightarrow> fence_done ?m i j"
    using Suc by simp_all
  have v: "valid_pos g0 i k"
    using Suc.prems i by (simp add: valid_pos_def)
  have r: "fold (fail_action upd i) [0..<Suc k] gl = fail_action upd i k ?m"
    by simp
  note st = fail_action_step [OF F U ih(1) v]
  have a: "fail_inv g0 (fail_action upd i k ?m)"
    using st by blast
  have b: "fence_done (fail_action upd i k ?m) i' j'"
    if "valid_pos g0 i' j'" "fence_done gl i' j'" for i' j'
    using that ih(2) st by blast
  have c: "fence_done (fail_action upd i k ?m) i j" if "j < Suc k" "pending_fence g0 i j" for j
  proof (cases "j = k")
    case True
    with that st show ?thesis by blast
  next
    case False
    with that have "fence_done ?m i j" using ih(3) by simp
    moreover have "valid_pos g0 i j" using that by (simp add: pending_fence_def)
    ultimately show ?thesis using st by blast
  qed
  from a b c show ?case unfolding r by blast
qed

lemma fail_synapse_step:
  assumes F: "update_graph_frame upd" and U: "unique_action_ids g0"
    and inv: "fail_inv g0 gl" and i: "i < length (synapses g0)"
  shows "fail_inv g0 (fail_synapse upd i gl)
         \<and> (\<forall>i' j'. valid_pos g0 i' j' \<longrightarrow> fence_done gl i' j' \<longrightarrow>
                fence_done (fail_synapse upd i gl) i' j')
         \<and> (\<forall>j. pending_fence g0 i j \<longrightarrow> fence_done (fail_synapse upd i gl) i j)"
proof (cases "s_confirmed (synapses (fst gl) ! i)")
  case True
  then have "fail_synapse upd i gl = gl"
    by (simp add: fail_synapse_def)
  moreover have "fence_done gl i j" if "pending_fence g0 i j" for j
    using that True fail_invD(7) [OF inv] by blast
  ultimately show ?thesis using inv by simp
next
  case False
  let ?n = "length (s_actions (synapses g0 ! i))"
  have "fail_synapse upd i gl = fold (fail_action upd i) [0..<?n] gl"
    using False fail_invD(2) [OF inv i] by (simp add: fail_synapse_def)
  moreover have "j < ?n" if "pending_fence g0 i j" for j
    using that by (simp add: pending_fence_def valid_pos_def)
  ultimately show ?thesis
    using fail_actions_fold [OF F U inv i, of ?n] by auto
qed

lemma fail_synapses_fold:
  assumes F: "update_graph_frame upd" and U: "unique_action_ids g0"
  shows "m \<le> length (synapses g0) \<Longrightarrow>
         fail_inv g0 (fold (fail_synapse upd) [0..<m] (g0, None))
         \<and> (\<forall>i < m. \<forall>j. pending_fence g0 i j \<longrightarrow>
                fence_done (fold (fail_synapse upd) [0..<m] (g0, None)) i j)"
proof (induction m)
  case 0
  then show ?case by (simp add: fail_inv_init)
next
  case (Suc m)
  let ?s = "fold (fail_synapse upd) [0..<m] (g0, None)"
  have ih: "fail_inv g0 ?s" "\<And>i j. i < m \<Longrightarrow> pending_fence g0 i j \<Longrightarrow> fence_done ?s i j"
    using Suc by simp_all
  have i: "m < length (synapses g0)"
    using Suc.prems by simp
  have r: "fold (fail_synapse upd) [0..<Suc m] (g0, None) = fail_synapse upd m ?s"
    by simp
  note st = fail_synapse_step [OF F U ih(1) i]
  have c: "fence_done (fail_synapse upd m ?s) i' j" if "i' < Suc m" "pending_fence g0 i' j" for i' j
  proof (cases "i' = m")
    case True
    with that st show ?thesis by blast
  next
    case False
    with that have "fence_done ?s i' j" using ih(2) by simp
    moreover have "valid_pos g0 i' j" using that by (simp add: pending_fence_def)
    ultimately show ?thesis using st by blast
  qed
  from st c show ?case unfolding r by blast
qed

lemma fail_loop_marks:
  assumes F: "update_graph_frame upd" and U: "unique_action_ids g0"
  shows "fail_inv g0 (fail_loop upd g0)"
    and "pending_fence g0 i j \<Longrightarrow> a_failed (action_at (fst (fail_loop upd g0)) i j)"
    and "pending_fence g0 i j \<Longrightarrow> snd (fail_loop upd g0) \<noteq> None"
proof -
  note l = fail_synapses_fold [OF F U, of "length (synapses g0)"]
  show "fail_inv g0 (fail_loop upd g0)"
    using l by (simp add: fail_loop_def)
  have "fence_done (fail_loop upd g0) i j" if "pending_fence g0 i j"
    using that l by (simp add: fail_loop_def pending_fence_def valid_pos_def)
  then show "pending_fence g0 i j \<Longrightarrow> a_failed (action_at (fst (fail_loop upd g0)) i j)"
    and "pending_fence g0 i j \<Longrightarrow> snd (fail_loop upd g0) \<noteq> None"
    by (simp_all add: fence_done_def)
qed


lemma ex_update_graph_frame: "update_graph_frame ex_update_graph"
proof -
  have syn: "synapses (ex_update_graph g a) ! i =
      (let s = synapses g ! i in
       if s_confirmed s then s
       else (let acts = map (\<lambda>b. if a_id b = a_id a then b\<lparr>a_confirmed := True\<rparr> else b) (s_actions s)
             in s\<lparr>s_actions := acts, s_confirmed := list_all a_confirmed acts\<rparr>))"
    if "i < length (synapses g)" for g a i
    using that by (simp add: ex_update_graph_def Let_def)
  show ?thesis
    unfolding update_graph_frame_def
  proof (intro allI conjI impI)
    fix g :: crm_graph and a :: crm_action
    show "length (synapses (ex_update_graph g a)) = length (synapses g)"
      by (simp add: ex_update_graph_def)
  next
    fix g :: crm_graph and a :: crm_action and i
    assume i: "i < length (synapses g)"
    show "length (s_actions (synapses (ex_update_graph g a) ! i)) = length (s_actions (synapses g ! i))"
      using syn [OF i] by (simp add: Let_def)
    show "s_confirmed (synapses g ! i) \<or>
          (\<forall>j<length (s_actions (synapses g ! i)). a_confirmed (action_at (ex_update_graph g a) i j))"
      if "s_confirmed (synapses (ex_update_graph g a) ! i)"
      using that syn [OF i] by (auto simp: Let_def action_at_def list_all_length split: if_splits)
  next
    fix g :: crm_graph and a :: crm_action and i j
    assume i: "i < length (synapses g)" and j: "j < length (s_actions (synapses g ! i))"
    show "a_id (action_at (ex_update_graph g a) i j) = a_id (action_at g i j)"
      using syn [OF i] j by (simp add: Let_def action_at_def)
    show "a_type (action_at (ex_update_graph g a) i j) = a_type (action_at g i j)"
      using syn [OF i] j by (simp add: Let_def action_at_def)
    show "a_xml (action_at (ex_update_graph g a) i j) = a_xml (action_at g i j)"
      using syn [OF i] j by (simp add: Let_def action_at_def)
    show "a_failed (action_at (ex_update_graph g a) i j)" if "a_failed (action_at g i j)"
      using that syn [OF i] j by (simp add: Let_def action_at_def)
    show "a_confirmed (action_at g i j) \<or> a_id (action_at g i j) = a_id a"
      if "a_confirmed (action_at (ex_update_graph g a) i j)"
      using that syn [OF i] j by (auto simp: Let_def action_at_def split: if_splits)
  qed
qed

lemma abort_keeps_synapses:
  assumes "\<forall>g p a t. synapses (uap g p a t) = synapses g" and "transition_graph st = Some g"
  shows "\<exists>gf. transition_graph (abort_transition_graph uap p a t r st) = Some gf
               \<and> synapses gf = synapses g"
  using assms by (simp add: abort_transition_graph_def Let_def)

lemma abort_takes_effect:
  assumes "transition_graph st = Some g" "\<not> te_inactive_state (fsa_state st)" "\<not> complete g"
  shows "transition_graph (abort_transition_graph uap p a t r st) = Some (uap g p a t)"
  using assms by (simp add: abort_transition_graph_def Let_def)

lemma connection_lost_fields:
  "am_i_dc (stonith_connection_lost st) = am_i_dc st" "transition_graph (stonith_connection_lost st) = transition_graph st"
  "fsa_state (stonith_connection_lost st) = fsa_state st"
  by (simp_all add: stonith_connection_lost_def Let_def split: option.splits)

lemma destroy_on_dc:
  assumes "am_i_dc st" "transition_graph st = Some g"
  shows "tengine_stonith_connection_destroy upd uap st =
     trigger_graph
       (case snd (fail_loop upd g) of
          None \<Rightarrow> (stonith_connection_lost st)\<lparr>transition_graph := Some (fst (fail_loop upd g))\<rparr>
        | Some la \<Rightarrow>
            abort_transition_graph uap INFINITY tg_restart ''Stonith failure'' (Some la)
              ((stonith_connection_lost st)\<lparr>transition_graph := Some (fst (fail_loop upd g))\<rparr>))"
proof -
  have "tengine_stonith_connection_destroy upd uap st =
        (if am_i_dc (stonith_connection_lost st)
         then trigger_graph (snd (fail_incompletable_stonith upd uap (stonith_connection_lost st)))
         else stonith_connection_lost st)"
    by (simp add: tengine_stonith_connection_destroy_def Let_def)
  then show ?thesis
    using assms
    by (simp add: connection_lost_fields fail_incompletable_stonith_def Let_def split: option.splits)
qed

lemma destroy_not_dc:
  "\<not> am_i_dc st \<Longrightarrow> transition_graph (tengine_stonith_connection_destroy upd uap st) = transition_graph st"
  by (simp add: tengine_stonith_connection_destroy_def Let_def connection_lost_fields)

lemma ex_uap_synapses: "\<forall>gr p a t. synapses (ex_update_abort_priority gr p a t) = synapses gr"
  by (simp add: ex_update_abort_priority_def Let_def)

lemma ex_pending: "pending_fence ex_graph 0 1"
  by (simp add: pending_fence_def valid_pos_def action_at_def ex_graph_def ex_action_def
                CRM_OP_FENCE_def str_casei_eq_def)

lemma ex_unique: "unique_action_ids ex_graph"
  by (simp add: unique_action_ids_def ex_graph_def ex_action_def)

lemma ex_destroy_priority:
  "abort_priority (the (transition_graph (tengine_stonith_connection_destroy ex_update_graph
      ex_update_abort_priority (ex_te S_TRANSITION_ENGINE True)))) = INFINITY
   \<and> completion_action (the (transition_graph (tengine_stonith_connection_destroy ex_update_graph
      ex_update_abort_priority (ex_te S_TRANSITION_ENGINE True)))) = tg_restart
   \<and> transition_trigger (tengine_stonith_connection_destroy ex_update_graph
      ex_update_abort_priority (ex_te S_TRANSITION_ENGINE True)) = 2"
  by code_simp


text \<open>
  C3, as the code has it. On the DC (\<^verbatim>\<open>AM_I_DC\<close>), with a current graph whose action ids
  are unique and with \<^verbatim>\<open>update_graph\<close> and \<^verbatim>\<open>update_abort_priority\<close> keeping to their
  bookkeeping, the destruction of the fencing connection leaves every unconfirmed fencing
  action of an unconfirmed synapse marked failed. When there is such an action,
  \<^verbatim>\<open>abort_transition_graph\<close> is called with priority INFINITY and action
  \<^verbatim>\<open>tg_restart\<close> on the graph so marked, and the graph trigger is set; when the FSA state
  does not suppress the abort and the graph is not complete, the graph becomes
  \<^verbatim>\<open>update_abort_priority\<close> of it with these two arguments.
\<close>

theorem stonith_connection_destroy_fails_fencing:
  assumes "update_graph_frame update_graph"
    and "\<forall>gr p a t. synapses (update_abort_priority gr p a t) = synapses gr"
    and "am_i_dc st" and "transition_graph st = Some g" and "unique_action_ids g"
  shows "(\<exists>gf. transition_graph
                 (tengine_stonith_connection_destroy update_graph update_abort_priority st) = Some gf
             \<and> (\<forall>i j. pending_fence g i j \<longrightarrow> a_failed (action_at gf i j)))
         \<and> ((\<exists>i j. pending_fence g i j) \<longrightarrow>
              (\<exists>la st1.
                 tengine_stonith_connection_destroy update_graph update_abort_priority st =
                   trigger_graph
                     (abort_transition_graph update_abort_priority INFINITY tg_restart
                        ''Stonith failure'' (Some la) st1)
                 \<and> fsa_state st1 = fsa_state st
                 \<and> transition_graph st1 = Some (fst (fail_loop update_graph g))
                 \<and> (\<not> te_inactive_state (fsa_state st)
                      \<and> \<not> complete (fst (fail_loop update_graph g)) \<longrightarrow>
                    transition_graph
                      (tengine_stonith_connection_destroy update_graph update_abort_priority st) =
                      Some (update_abort_priority (fst (fail_loop update_graph g)) INFINITY
                              tg_restart ''Stonith failure''))))"
proof -
  let ?gl = "fail_loop update_graph g"
  let ?st1 = "(stonith_connection_lost st)\<lparr>transition_graph := Some (fst ?gl)\<rparr>"
  note d = destroy_on_dc [OF assms(3,4), of update_graph update_abort_priority]
  note m = fail_loop_marks [OF assms(1,5)]
  have g1: "transition_graph ?st1 = Some (fst ?gl)" and f1: "fsa_state ?st1 = fsa_state st"
    by (simp_all add: connection_lost_fields)
  have tg: "transition_graph (trigger_graph s) = transition_graph s" for s
    by (simp add: trigger_graph_def)
  have first: "\<exists>gf. transition_graph
                 (tengine_stonith_connection_destroy update_graph update_abort_priority st) = Some gf
             \<and> (\<forall>i j. pending_fence g i j \<longrightarrow> a_failed (action_at gf i j))"
  proof (cases "snd ?gl")
    case None
    then show ?thesis using d m(2) by (simp add: tg)
  next
    case (Some la)
    obtain gf where gf: "transition_graph (abort_transition_graph update_abort_priority INFINITY tg_restart
          ''Stonith failure'' (Some la) ?st1) = Some gf" "synapses gf = synapses (fst ?gl)"
      using abort_keeps_synapses [OF assms(2) g1] by blast
    have "action_at gf i j = action_at (fst ?gl) i j" for i j
      using gf(2) by (simp add: action_at_def)
    with Some gf(1) show ?thesis using d m(2) by (simp add: tg)
  qed
  have second: "\<exists>la st1.
       tengine_stonith_connection_destroy update_graph update_abort_priority st =
         trigger_graph (abort_transition_graph update_abort_priority INFINITY tg_restart
                          ''Stonith failure'' (Some la) st1)
       \<and> fsa_state st1 = fsa_state st
       \<and> transition_graph st1 = Some (fst ?gl)
       \<and> (\<not> te_inactive_state (fsa_state st) \<and> \<not> complete (fst ?gl) \<longrightarrow>
            transition_graph
              (tengine_stonith_connection_destroy update_graph update_abort_priority st) =
              Some (update_abort_priority (fst ?gl) INFINITY tg_restart ''Stonith failure''))"
    if "\<exists>i j. pending_fence g i j"
  proof -
    from that m(3) obtain la where la: "snd ?gl = Some la" by blast
    have eq: "tengine_stonith_connection_destroy update_graph update_abort_priority st =
         trigger_graph (abort_transition_graph update_abort_priority INFINITY tg_restart
                          ''Stonith failure'' (Some la) ?st1)"
      using d la by simp
    have eff: "transition_graph
              (tengine_stonith_connection_destroy update_graph update_abort_priority st) =
              Some (update_abort_priority (fst ?gl) INFINITY tg_restart ''Stonith failure'')"
      if "\<not> te_inactive_state (fsa_state st)" "\<not> complete (fst ?gl)"
      using that abort_takes_effect [OF g1, of update_abort_priority INFINITY tg_restart
          "''Stonith failure''" "Some la"] f1
      by (simp add: eq tg)
    from eq f1 g1 eff show ?thesis by blast
  qed
  from first second show ?thesis by blast
qed

theorem stonith_connection_destroy_fails_fencing_witness:
  "update_graph_frame ex_update_graph
   \<and> (\<forall>gr p a t. synapses (ex_update_abort_priority gr p a t) = synapses gr)
   \<and> am_i_dc (ex_te S_TRANSITION_ENGINE True)
   \<and> transition_graph (ex_te S_TRANSITION_ENGINE True) = Some ex_graph
   \<and> unique_action_ids ex_graph
   \<and> pending_fence ex_graph 0 1
   \<and> a_failed (action_at (the (transition_graph (tengine_stonith_connection_destroy ex_update_graph
        ex_update_abort_priority (ex_te S_TRANSITION_ENGINE True)))) 0 1)
   \<and> abort_priority (the (transition_graph (tengine_stonith_connection_destroy ex_update_graph
        ex_update_abort_priority (ex_te S_TRANSITION_ENGINE True)))) = INFINITY
   \<and> completion_action (the (transition_graph (tengine_stonith_connection_destroy ex_update_graph
        ex_update_abort_priority (ex_te S_TRANSITION_ENGINE True)))) = tg_restart"
proof -
  have dc: "am_i_dc (ex_te S_TRANSITION_ENGINE True)"
    and g: "transition_graph (ex_te S_TRANSITION_ENGINE True) = Some ex_graph"
    by (simp_all add: ex_te_def)
  note t = stonith_connection_destroy_fails_fencing [OF ex_update_graph_frame ex_uap_synapses dc g ex_unique]
  from t ex_pending have "a_failed (action_at (the (transition_graph (tengine_stonith_connection_destroy
        ex_update_graph ex_update_abort_priority (ex_te S_TRANSITION_ENGINE True)))) 0 1)"
    by auto
  then show ?thesis
    using ex_update_graph_frame ex_uap_synapses dc g ex_unique ex_pending ex_destroy_priority
    by simp
qed


text \<open>
  The claim as it is worded does not ask for the DC. On a node that is not the DC the
  callback leaves the graph alone: the pending fencing action stays unfailed and the
  abort priority stays 0.
\<close>

theorem stonith_connection_destroy_not_dc_counterexample:
  "pending_fence ex_graph 0 1
   \<and> transition_graph (ex_te S_NOT_DC False) = Some ex_graph
   \<and> transition_graph (tengine_stonith_connection_destroy ex_update_graph ex_update_abort_priority
        (ex_te S_NOT_DC False)) = Some ex_graph
   \<and> \<not> a_failed (action_at ex_graph 0 1)
   \<and> abort_priority ex_graph = 0"
  using ex_pending
  by (simp add: tengine_stonith_connection_destroy_def stonith_connection_lost_def Let_def ex_te_def)
     (simp add: ex_graph_def ex_action_def action_at_def)

section \<open>Properties of the executor client\<close>

lemma sint_dec_pos:
  fixes c :: "32 word"
  assumes "0 <s c"
  shows "sint (c - 1) = sint c - 1"
proof -
  have p: "0 < sint c" using assms by (simp add: word_sless_alt)
  have u: "sint c < 2 ^ 31" using sint_lt [of c] by simp
  have "sint (c - 1) = signed_take_bit 31 (sint c - 1)"
    by (simp add: sint_word_diff)
  also have "\<dots> = sint c - 1"
    using p u by (intro signed_take_bit_int_eq_self) simp_all
  finally show ?thesis .
qed

lemma sint_inc_small:
  fixes c :: "32 word"
  assumes "sint c < 2147483647"
  shows "sint (c + 1) = sint c + 1"
proof -
  have l: "- (2 ^ 31) \<le> sint c" using sint_ge [of c] by simp
  have "sint (c + 1) = signed_take_bit 31 (sint c + 1)"
    by (simp add: sint_word_add)
  also have "\<dots> = sint c + 1"
    using l assms by (intro signed_take_bit_int_eq_self) simp_all
  finally show ?thesis .
qed

lemma not_notify_reply: "msg_type_is m ''reply'' \<Longrightarrow> \<not> msg_type_is m ''notify''"
  by (auto simp: msg_type_is_def str_casei_eq_def split: option.splits)

lemma send_no_reply_counts:
  assumes "ctype native = pcmk__client_tls" "sent = pcmk_rc_ok"
  shows "fst (lrmd_send_xml_no_reply ipc_sent sent native) = pcmk_ok"
    and "expected_late_replies (snd (lrmd_send_xml_no_reply ipc_sent sent native))
           = expected_late_replies native + 1"
    and "lrmd_logged (snd (lrmd_send_xml_no_reply ipc_sent sent native)) = lrmd_logged native"
  using assms by (simp_all add: lrmd_send_xml_no_reply_def lrmd_tls_send_def Let_def)

lemma send_no_reply_failed:
  assumes "ctype native = pcmk__client_tls" "sent \<noteq> pcmk_rc_ok"
  shows "expected_late_replies (snd (lrmd_send_xml_no_reply ipc_sent sent native))
           = expected_late_replies native"
  using assms
  by (simp add: lrmd_send_xml_no_reply_def lrmd_tls_send_def Let_def lrmd_tls_disconnect_def
                pcmk_ok_def ENOTCONN_def)

lemma dispatch_reply_pos:
  assumes "msg_type_is m ''reply''" "0 <s expected_late_replies native"
  shows "tls_dispatch_msg m native
           = native\<lparr>expected_late_replies := expected_late_replies native - 1\<rparr>"
  using assms not_notify_reply [of m] by (simp add: tls_dispatch_msg_def)

lemma dispatch_reply_zero:
  assumes "msg_type_is m ''reply''" "\<not> 0 <s expected_late_replies native"
  shows "tls_dispatch_msg m native
           = native\<lparr>lrmd_logged := lrmd_logged native @ [Err_outdated_reply (msg_callid m)]\<rparr>"
  using assms not_notify_reply [of m] by (simp add: tls_dispatch_msg_def)

lemma dispatch_other:
  assumes "\<not> msg_type_is m ''reply''"
  shows "expected_late_replies (tls_dispatch_msg m native) = expected_late_replies native"
    and "lrmd_logged (tls_dispatch_msg m native) = lrmd_logged native"
  using assms by (simp_all add: tls_dispatch_msg_def)


lemma dispatch_fold:
  "0 \<le> sint (expected_late_replies native) \<Longrightarrow>
   sint (expected_late_replies (fold tls_dispatch_msg msgs native))
     = max 0 (sint (expected_late_replies native)
              - int (length (filter (\<lambda>m. msg_type_is m ''reply'') msgs)))
   \<and> lrmd_logged (fold tls_dispatch_msg msgs native)
     = lrmd_logged native
       @ map (\<lambda>m. Err_outdated_reply (msg_callid m))
           (drop (nat (sint (expected_late_replies native)))
              (filter (\<lambda>m. msg_type_is m ''reply'') msgs))"
proof (induction msgs arbitrary: native)
  case Nil
  then show ?case by simp
next
  case (Cons m msgs)
  let ?c = "expected_late_replies native"
  let ?rs = "filter (\<lambda>m. msg_type_is m ''reply'') msgs"
  show ?case
  proof (cases "msg_type_is m ''reply''")
    case False
    let ?n = "tls_dispatch_msg m native"
    have f: "fold tls_dispatch_msg (m # msgs) native = fold tls_dispatch_msg msgs ?n"
      by simp
    have fl: "filter (\<lambda>m. msg_type_is m ''reply'') (m # msgs) = ?rs"
      using False by simp
    have c: "expected_late_replies ?n = ?c" and l: "lrmd_logged ?n = lrmd_logged native"
      using dispatch_other [OF False] by simp_all
    have "0 \<le> sint (expected_late_replies ?n)"
      using Cons.prems c by simp
    from Cons.IH [OF this] show ?thesis
      unfolding f fl c l .
  next
    case True
    have fl: "filter (\<lambda>m. msg_type_is m ''reply'') (m # msgs) = m # ?rs"
      using True by simp
    show ?thesis
    proof (cases "0 <s ?c")
      case pos: True
      let ?n = "native\<lparr>expected_late_replies := ?c - 1\<rparr>"
      have s: "tls_dispatch_msg m native = ?n"
        using True pos by (rule dispatch_reply_pos)
      have f: "fold tls_dispatch_msg (m # msgs) native = fold tls_dispatch_msg msgs ?n"
        by (simp add: s)
      have d: "sint (?c - 1) = sint ?c - 1"
        using pos by (rule sint_dec_pos)
      have p: "0 < sint ?c"
        using pos by (simp add: word_sless_alt)
      have n1: "nat (sint ?c) = Suc (nat (sint ?c - 1))"
        using p by simp
      have "0 \<le> sint (expected_late_replies ?n)"
        using d p by simp
      from Cons.IH [OF this]
      have ih: "sint (expected_late_replies (fold tls_dispatch_msg msgs ?n))
                  = max 0 (sint ?c - 1 - int (length ?rs))"
        "lrmd_logged (fold tls_dispatch_msg msgs ?n)
           = lrmd_logged native
             @ map (\<lambda>m. Err_outdated_reply (msg_callid m)) (drop (nat (sint ?c - 1)) ?rs)"
        by (simp_all add: d)
      have a: "max 0 (sint ?c - 1 - int (length ?rs)) = max 0 (sint ?c - int (length (m # ?rs)))"
        by simp
      have b: "drop (nat (sint ?c - 1)) ?rs = drop (nat (sint ?c)) (m # ?rs)"
        unfolding n1 by simp
      show ?thesis
        unfolding f fl ih a b by simp
    next
      case zero: False
      let ?n = "native\<lparr>lrmd_logged := lrmd_logged native @ [Err_outdated_reply (msg_callid m)]\<rparr>"
      have s: "tls_dispatch_msg m native = ?n"
        using True zero by (rule dispatch_reply_zero)
      have f: "fold tls_dispatch_msg (m # msgs) native = fold tls_dispatch_msg msgs ?n"
        by (simp add: s)
      have z: "sint ?c = 0"
        using zero Cons.prems by (simp add: word_sless_alt)
      have "0 \<le> sint (expected_late_replies ?n)"
        using z by simp
      from Cons.IH [OF this]
      have ih: "sint (expected_late_replies (fold tls_dispatch_msg msgs ?n))
                  = max 0 (0 - int (length ?rs))"
        "lrmd_logged (fold tls_dispatch_msg msgs ?n)
           = (lrmd_logged native @ [Err_outdated_reply (msg_callid m)])
             @ map (\<lambda>m. Err_outdated_reply (msg_callid m)) ?rs"
        by (simp_all add: z)
      show ?thesis
        unfolding f fl ih z by simp
    qed
  qed
qed


lemma dispatch_connected:
  assumes "tls_session native" "ready = pcmk_rc_ok \<or> ready = ETIME"
    and "ready = pcmk_rc_ok \<longrightarrow> read_rc \<noteq> ENOTCONN"
  shows "lrmd_tls_dispatch ready read_rc msgs native =
           (1, fold tls_dispatch_msg msgs
                 (native\<lparr>dispatched := dispatched native @ pending_notify native,
                         pending_notify := []\<rparr>))"
  using assms
  by (auto simp: lrmd_tls_dispatch_def Let_def pcmk_rc_ok_def ETIME_def ENOTCONN_def)

lemma ex_reply_is_reply: "msg_type_is (ex_reply n) ''reply''"
  by (simp add: msg_type_is_def ex_reply_def str_casei_eq_def)


text \<open>
  C6. On the TLS transport a request sent without waiting for the reply, when the send
  succeeds, adds one to \<^verbatim>\<open>expected_late_replies\<close> and logs nothing. A reply that the
  dispatcher receives, or that \<^verbatim>\<open>lrmd_tls_recv_reply\<close> receives with an id other than the
  awaited one, takes one off the counter and logs nothing while the counter is positive;
  with the counter at zero the counter stays and the outdated-reply error is logged, and
  this is the only case in which a reply adds to the log. For a whole run of the
  dispatcher on a connected session: the counter ends at the larger of zero and its
  old value less the number of replies, and the errors logged are those of the replies
  after the first as many as the counter held.
\<close>

theorem late_replies_absorbed:
  "(ctype native = pcmk__client_tls \<and> sent = pcmk_rc_ok \<longrightarrow>
      fst (lrmd_send_xml_no_reply ipc_sent sent native) = pcmk_ok
      \<and> expected_late_replies (snd (lrmd_send_xml_no_reply ipc_sent sent native))
          = expected_late_replies native + 1
      \<and> lrmd_logged (snd (lrmd_send_xml_no_reply ipc_sent sent native)) = lrmd_logged native
      \<and> (sint (expected_late_replies native) < 2147483647 \<longrightarrow>
           sint (expected_late_replies (snd (lrmd_send_xml_no_reply ipc_sent sent native)))
             = sint (expected_late_replies native) + 1))
   \<and> (msg_type_is m ''reply'' \<and> 0 <s expected_late_replies native \<longrightarrow>
        tls_dispatch_msg m native
          = native\<lparr>expected_late_replies := expected_late_replies native - 1\<rparr>
        \<and> sint (expected_late_replies native - 1) = sint (expected_late_replies native) - 1)
   \<and> (msg_type_is m ''reply'' \<and> 0 \<le> sint (expected_late_replies native) \<longrightarrow>
        (lrmd_logged (tls_dispatch_msg m native) \<noteq> lrmd_logged native
           \<longleftrightarrow> expected_late_replies native = 0)
        \<and> (expected_late_replies native = 0 \<longrightarrow>
             tls_dispatch_msg m native
               = native\<lparr>lrmd_logged := lrmd_logged native @ [Err_outdated_reply (msg_callid m)]\<rparr>))
   \<and> (msg_type_is m ''reply'' \<and> msg_id m \<noteq> awaited \<longrightarrow>
        tls_recv_reply_msg awaited m native
          = (None,
             if 0 <s expected_late_replies native
             then native\<lparr>expected_late_replies := expected_late_replies native - 1\<rparr>
             else native\<lparr>lrmd_logged := lrmd_logged native
                            @ [Err_outdated_reply_id awaited (msg_id m)]\<rparr>))
   \<and> (tls_session native \<and> 0 \<le> sint (expected_late_replies native)
        \<and> (ready = pcmk_rc_ok \<or> ready = ETIME) \<and> (ready = pcmk_rc_ok \<longrightarrow> read_rc \<noteq> ENOTCONN) \<longrightarrow>
        sint (expected_late_replies (snd (lrmd_tls_dispatch ready read_rc msgs native)))
          = max 0 (sint (expected_late_replies native)
                   - int (length (filter (\<lambda>m. msg_type_is m ''reply'') msgs)))
        \<and> lrmd_logged (snd (lrmd_tls_dispatch ready read_rc msgs native))
          = lrmd_logged native
            @ map (\<lambda>m. Err_outdated_reply (msg_callid m))
                (drop (nat (sint (expected_late_replies native)))
                   (filter (\<lambda>m. msg_type_is m ''reply'') msgs)))"
proof (intro conjI impI)
  assume a: "ctype native = pcmk__client_tls \<and> sent = pcmk_rc_ok"
  then show "fst (lrmd_send_xml_no_reply ipc_sent sent native) = pcmk_ok"
    and e: "expected_late_replies (snd (lrmd_send_xml_no_reply ipc_sent sent native))
          = expected_late_replies native + 1"
    and "lrmd_logged (snd (lrmd_send_xml_no_reply ipc_sent sent native)) = lrmd_logged native"
    by (simp_all add: send_no_reply_counts)
  show "sint (expected_late_replies (snd (lrmd_send_xml_no_reply ipc_sent sent native)))
             = sint (expected_late_replies native) + 1"
    if "sint (expected_late_replies native) < 2147483647"
    using that by (simp add: e sint_inc_small)
next
  assume a: "msg_type_is m ''reply'' \<and> 0 <s expected_late_replies native"
  then show "tls_dispatch_msg m native
          = native\<lparr>expected_late_replies := expected_late_replies native - 1\<rparr>"
    by (simp add: dispatch_reply_pos)
  from a show "sint (expected_late_replies native - 1) = sint (expected_late_replies native) - 1"
    by (simp add: sint_dec_pos)
next
  assume a: "msg_type_is m ''reply'' \<and> 0 \<le> sint (expected_late_replies native)"
  show "(lrmd_logged (tls_dispatch_msg m native) \<noteq> lrmd_logged native)
           = (expected_late_replies native = 0)"
  proof (cases "0 <s expected_late_replies native")
    case True
    then have "expected_late_replies native \<noteq> 0" by auto
    with True a show ?thesis by (simp add: dispatch_reply_pos)
  next
    case False
    with a have "expected_late_replies native = 0"
      by (simp add: signed_eq_0_iff word_sless_alt)
    with False a show ?thesis by (simp add: dispatch_reply_zero)
  qed
  show "tls_dispatch_msg m native
               = native\<lparr>lrmd_logged := lrmd_logged native @ [Err_outdated_reply (msg_callid m)]\<rparr>"
    if "expected_late_replies native = 0"
    using that a by (simp add: dispatch_reply_zero)
next
  assume "msg_type_is m ''reply'' \<and> msg_id m \<noteq> awaited"
  then show "tls_recv_reply_msg awaited m native
          = (None,
             if 0 <s expected_late_replies native
             then native\<lparr>expected_late_replies := expected_late_replies native - 1\<rparr>
             else native\<lparr>lrmd_logged := lrmd_logged native
                            @ [Err_outdated_reply_id awaited (msg_id m)]\<rparr>)"
    using not_notify_reply [of m]
    by (auto simp: tls_recv_reply_msg_def msg_type_is_def split: option.splits)
next
  assume a: "tls_session native \<and> 0 \<le> sint (expected_late_replies native)
        \<and> (ready = pcmk_rc_ok \<or> ready = ETIME) \<and> (ready = pcmk_rc_ok \<longrightarrow> read_rc \<noteq> ENOTCONN)"
  let ?n = "native\<lparr>dispatched := dispatched native @ pending_notify native, pending_notify := []\<rparr>"
  have d: "snd (lrmd_tls_dispatch ready read_rc msgs native) = fold tls_dispatch_msg msgs ?n"
    using a by (simp add: dispatch_connected)
  have "0 \<le> sint (expected_late_replies ?n)"
    using a by simp
  from dispatch_fold [OF this, of msgs]
  show "sint (expected_late_replies (snd (lrmd_tls_dispatch ready read_rc msgs native)))
          = max 0 (sint (expected_late_replies native)
                   - int (length (filter (\<lambda>m. msg_type_is m ''reply'') msgs)))"
    and "lrmd_logged (snd (lrmd_tls_dispatch ready read_rc msgs native))
          = lrmd_logged native
            @ map (\<lambda>m. Err_outdated_reply (msg_callid m))
                (drop (nat (sint (expected_late_replies native)))
                   (filter (\<lambda>m. msg_type_is m ''reply'') msgs))"
    unfolding d by simp_all
qed

theorem late_replies_absorbed_witness:
  "expected_late_replies (snd (lrmd_send_xml_no_reply 0 pcmk_rc_ok (ex_native 0))) = 1
   \<and> global_remote_msg_id (snd (lrmd_send_xml_no_reply 0 pcmk_rc_ok (ex_native 0))) = 17
   \<and> expected_late_replies
        (snd (lrmd_tls_dispatch pcmk_rc_ok pcmk_rc_ok [ex_reply 17] (ex_native 1))) = 0
   \<and> lrmd_logged (snd (lrmd_tls_dispatch pcmk_rc_ok pcmk_rc_ok [ex_reply 17] (ex_native 1))) = []
   \<and> lrmd_logged
        (snd (lrmd_tls_dispatch pcmk_rc_ok pcmk_rc_ok [ex_reply 17, ex_reply 18] (ex_native 1)))
       = [Err_outdated_reply 18]"
proof -
  have tls: "ctype (ex_native 0) = pcmk__client_tls \<and> pcmk_rc_ok = pcmk_rc_ok"
    by (simp add: ex_native_def)
  have conn: "tls_session (ex_native 1) \<and> 0 \<le> sint (expected_late_replies (ex_native 1))
        \<and> (pcmk_rc_ok = pcmk_rc_ok \<or> pcmk_rc_ok = ETIME)
        \<and> (pcmk_rc_ok = pcmk_rc_ok \<longrightarrow> pcmk_rc_ok \<noteq> ENOTCONN)"
    by (simp add: ex_native_def pcmk_rc_ok_def ENOTCONN_def)
  have c1: "expected_late_replies (ex_native 1) = 1" "expected_late_replies (ex_native 0) = 0"
    "lrmd_logged (ex_native 1) = []"
    by (simp_all add: ex_native_def)
  have gid: "global_remote_msg_id (snd (lrmd_send_xml_no_reply 0 pcmk_rc_ok (ex_native 0))) = 17"
    by (simp add: lrmd_send_xml_no_reply_def lrmd_tls_send_def Let_def ex_native_def
                  pcmk_ok_def word_sle_eq)
  have s: "expected_late_replies (snd (lrmd_send_xml_no_reply 0 pcmk_rc_ok (ex_native 0)))
             = expected_late_replies (ex_native 0) + 1"
    using late_replies_absorbed [where native = "ex_native 0" and sent = pcmk_rc_ok
        and ipc_sent = 0, THEN conjunct1] tls
    by blast
  have d1: "sint (expected_late_replies
               (snd (lrmd_tls_dispatch pcmk_rc_ok pcmk_rc_ok [ex_reply 17] (ex_native 1))))
          = max 0 (sint (expected_late_replies (ex_native 1))
                   - int (length (filter (\<lambda>m. msg_type_is m ''reply'') [ex_reply 17])))
        \<and> lrmd_logged (snd (lrmd_tls_dispatch pcmk_rc_ok pcmk_rc_ok [ex_reply 17] (ex_native 1)))
          = lrmd_logged (ex_native 1)
            @ map (\<lambda>m. Err_outdated_reply (msg_callid m))
                (drop (nat (sint (expected_late_replies (ex_native 1))))
                   (filter (\<lambda>m. msg_type_is m ''reply'') [ex_reply 17]))"
    using late_replies_absorbed [where native = "ex_native 1" and ready = pcmk_rc_ok
        and read_rc = pcmk_rc_ok and msgs = "[ex_reply 17]",
        THEN conjunct2, THEN conjunct2, THEN conjunct2, THEN conjunct2] conn
    by blast
  have d2: "lrmd_logged
              (snd (lrmd_tls_dispatch pcmk_rc_ok pcmk_rc_ok [ex_reply 17, ex_reply 18] (ex_native 1)))
          = lrmd_logged (ex_native 1)
            @ map (\<lambda>m. Err_outdated_reply (msg_callid m))
                (drop (nat (sint (expected_late_replies (ex_native 1))))
                   (filter (\<lambda>m. msg_type_is m ''reply'') [ex_reply 17, ex_reply 18]))"
    using late_replies_absorbed [where native = "ex_native 1" and ready = pcmk_rc_ok
        and read_rc = pcmk_rc_ok and msgs = "[ex_reply 17, ex_reply 18]",
        THEN conjunct2, THEN conjunct2, THEN conjunct2, THEN conjunct2] conn
    by blast
  have 1: "expected_late_replies (snd (lrmd_send_xml_no_reply 0 pcmk_rc_ok (ex_native 0))) = 1"
    using s c1 by simp
  have 2: "sint (expected_late_replies
             (snd (lrmd_tls_dispatch pcmk_rc_ok pcmk_rc_ok [ex_reply 17] (ex_native 1)))) = 0"
    "lrmd_logged (snd (lrmd_tls_dispatch pcmk_rc_ok pcmk_rc_ok [ex_reply 17] (ex_native 1))) = []"
    using d1 c1 ex_reply_is_reply by simp_all
  have 3: "lrmd_logged
             (snd (lrmd_tls_dispatch pcmk_rc_ok pcmk_rc_ok [ex_reply 17, ex_reply 18] (ex_native 1)))
       = [Err_outdated_reply 18]"
    using d2 c1 ex_reply_is_reply by (simp add: ex_reply_def)
  from 2(1) have "expected_late_replies
      (snd (lrmd_tls_dispatch pcmk_rc_ok pcmk_rc_ok [ex_reply 17] (ex_native 1))) = 0"
    by (simp add: signed_eq_0_iff)
  with 1 2 3 gid show ?thesis by simp
qed

section \<open>Properties of the fencing daemon\<close>

subsection \<open>The host map\<close>

declare build_port_aliases_loop.simps [simp del]

lemma c_strlen_no_nul: "CHR 0x00 \<notin> set h \<Longrightarrow> c_strlen h = length h"
  by (induction h) (auto simp: c_strlen_def)

lemma substr_snoc:
  assumes "l \<le> i" "i < length h"
  shows "c_substr h l (Suc i - l) = c_substr h l (i - l) @ [h ! i]"
proof -
  have "Suc i - l = Suc (i - l)" using assms by simp
  moreover have "i - l < length (drop l h)" using assms by simp
  moreover have "drop l h ! (i - l) = h ! i" using assms by simp
  ultimately show ?thesis
    by (simp add: c_substr_def take_Suc_conv_app_nth)
qed

lemma substr_empty_iff:
  assumes "l \<le> i" "i < length h"
  shows "c_substr h l (i - l) \<noteq> [] \<longleftrightarrow> l < i"
  using assms by (auto simp: c_substr_def)

lemma parse_char_scan:
  assumes "ap_last p \<le> lpc" "lpc < length h"
  shows "scan_of h (Suc lpc) (alias_parse_char h lpc p) = hostmap_char (h ! lpc) (scan_of h lpc p)"
    and "ap_last (alias_parse_char h lpc p) \<le> Suc lpc"
proof -
  have c: "c_char_at h lpc = h ! lpc"
    using assms by (simp add: c_char_at_def)
  have e: "c_substr h (Suc lpc) 0 = []"
    by (simp add: c_substr_def)
  note sn = substr_snoc [OF assms] and se = substr_empty_iff [OF assms]
  show "scan_of h (Suc lpc) (alias_parse_char h lpc p) = hostmap_char (h ! lpc) (scan_of h lpc p)"
    using assms se
    by (auto simp: alias_parse_char_def hostmap_char_def hostmap_delimiter_def scan_of_def
                   Let_def c e sn split: option.splits)
  show "ap_last (alias_parse_char h lpc p) \<le> Suc lpc"
    using assms by (auto simp: alias_parse_char_def Let_def split: option.splits)
qed

lemma parse_end_scan:
  assumes "ap_last p \<le> length h"
  shows "scan_of h (Suc (length h)) (alias_parse_char h (length h) p)
           = hostmap_delimiter (scan_of h (length h) p)"
  using assms
  by (auto simp: alias_parse_char_def hostmap_delimiter_def scan_of_def Let_def c_char_at_def
                 c_substr_def split: option.splits)


lemma loop_scan:
  assumes "CHR 0x00 \<notin> set h"
  shows "lpc \<le> length h \<Longrightarrow> ap_last p \<le> lpc \<Longrightarrow>
         scan_of h (Suc (length h)) (build_port_aliases_loop h lpc p)
           = hostmap_scan (drop lpc h) (scan_of h lpc p)"
proof (induction "length h - lpc" arbitrary: lpc p)
  case 0
  then have l: "lpc = length h" by simp
  have n: "c_char_at h (length h) = CHR 0x00"
    by (simp add: c_char_at_def)
  have "build_port_aliases_loop h lpc p = alias_parse_char h (length h) p"
    using l n by (subst build_port_aliases_loop.simps) (simp add: c_strlen_no_nul [OF assms] Let_def)
  then show ?case
    using l 0 by (simp add: hostmap_scan_def parse_end_scan)
next
  case (Suc k)
  then have lt: "lpc < length h" by simp
  have "h ! lpc \<in> set h"
    using lt by simp
  with assms have "h ! lpc \<noteq> CHR 0x00"
    by metis
  then have nn: "c_char_at h lpc \<noteq> CHR 0x00"
    using lt by (simp add: c_char_at_def)
  let ?p = "alias_parse_char h lpc p"
  have step: "build_port_aliases_loop h lpc p = build_port_aliases_loop h (Suc lpc) ?p"
    using lt nn by (subst build_port_aliases_loop.simps) (simp add: c_strlen_no_nul [OF assms] Let_def)
  note ps = parse_char_scan [OF Suc.prems(2) lt]
  have "scan_of h (Suc (length h)) (build_port_aliases_loop h (Suc lpc) ?p)
          = hostmap_scan (drop (Suc lpc) h) (scan_of h (Suc lpc) ?p)"
    using Suc.hyps(2) lt ps(2) by (intro Suc.hyps(1)) simp_all
  also have "\<dots> = hostmap_scan (drop lpc h) (scan_of h lpc p)"
    using lt by (simp add: hostmap_scan_def ps(1) Cons_nth_drop_Suc [symmetric])
  finally show ?case
    by (simp only: step)
qed

lemma build_port_aliases_scan:
  assumes "CHR 0x00 \<notin> set h"
  shows "build_port_aliases (Some h) ts =
           (as_aliases (hostmap_scan h \<lparr>as_current = [], as_name = None, as_added = 0,
                                        as_aliases = Map.empty, as_targets = ts\<rparr>),
            as_targets (hostmap_scan h \<lparr>as_current = [], as_name = None, as_added = 0,
                                        as_aliases = Map.empty, as_targets = ts\<rparr>))"
proof -
  let ?p0 = "\<lparr>ap_name = None, ap_last = 0, ap_added = 0, ap_aliases = Map.empty, ap_targets = ts\<rparr>"
  have s0: "scan_of h 0 ?p0 = \<lparr>as_current = [], as_name = None, as_added = 0,
                               as_aliases = Map.empty, as_targets = ts\<rparr>"
    by (simp add: scan_of_def c_substr_def)
  have E: "scan_of h (Suc (length h)) (build_port_aliases_loop h 0 ?p0) = hostmap_scan h (scan_of h 0 ?p0)"
    using loop_scan [OF assms, of 0 ?p0] by simp
  have f: "as_aliases (scan_of h n q) = ap_aliases q \<and> as_targets (scan_of h n q) = ap_targets q" for n q
    by (simp add: scan_of_def)
  have "as_aliases (hostmap_scan h (scan_of h 0 ?p0)) = ap_aliases (build_port_aliases_loop h 0 ?p0)"
    "as_targets (hostmap_scan h (scan_of h 0 ?p0)) = ap_targets (build_port_aliases_loop h 0 ?p0)"
    using f [of "Suc (length h)" "build_port_aliases_loop h 0 ?p0"] by (simp_all only: E)
  then show ?thesis
    by (simp add: build_port_aliases_def Let_def s0)
qed


lemma scan_word:
  "hostmap_word w \<Longrightarrow> fold hostmap_char w s = s\<lparr>as_current := as_current s @ w\<rparr>"
proof (induction w arbitrary: s)
  case Nil
  then show ?case by simp
next
  case (Cons c w)
  then have "hostmap_word w" and "hostmap_char c s = s\<lparr>as_current := as_current s @ [c]\<rparr>"
    by (auto simp: hostmap_word_def hostmap_char_def)
  with Cons.IH [of "hostmap_char c s"] show ?case by simp
qed

lemma scan_separator: "hostmap_separator d \<Longrightarrow> hostmap_char d s = hostmap_delimiter s"
  by (auto simp: hostmap_separator_def hostmap_char_def)

lemma scan_entry:
  assumes "hostmap_entry_ok e" "as_current s = []" "as_name s = None"
  shows "hostmap_delimiter (fold hostmap_char (entry_text e) s) = entry_done (entry_alias e) s"
proof (cases e)
  case (Assign name a v)
  with assms(1) have w: "hostmap_word name" "hostmap_word v" "name \<noteq> []"
    and a: "a = CHR ''='' \<or> a = CHR '':''"
    by simp_all
  let ?s1 = "s\<lparr>as_current := name\<rparr>"
  let ?s2 = "s\<lparr>as_name := Some name, as_current := []\<rparr>"
  have 1: "fold hostmap_char name s = ?s1"
    using w(1) assms(2) by (simp add: scan_word)
  have 2: "hostmap_char a ?s1 = ?s2"
    using a w(3) by (auto simp: hostmap_char_def)
  have 3: "fold hostmap_char v ?s2 = ?s2\<lparr>as_current := v\<rparr>"
    using w(2) by (simp add: scan_word)
  have "fold hostmap_char (entry_text e) s = ?s2\<lparr>as_current := v\<rparr>"
    using Assign 1 2 3 by simp
  then show ?thesis
    using Assign by (simp add: hostmap_delimiter_def entry_done_def add_aliases_def)
next
  case (Bare w)
  with assms(1) have "fold hostmap_char (entry_text e) s = s\<lparr>as_current := as_current s @ w\<rparr>"
    by (simp add: scan_word)
  then show ?thesis
    using Bare assms(2,3)
    by (cases s) (simp add: hostmap_delimiter_def entry_done_def add_aliases_def option.map_ident)
qed

lemma entry_done_append:
  "entry_done qs (entry_done ps s) = entry_done (ps @ qs) s"
  by (cases "as_targets s") (simp_all add: entry_done_def add_aliases_def)

lemma entry_done_ready: "as_current (entry_done ps s) = [] \<and> as_name (entry_done ps s) = None"
  by (simp add: entry_done_def)

lemma scan_hostmap_text:
  assumes "\<forall>(e, d) \<in> set es. hostmap_entry_ok e \<and> hostmap_separator d" "hostmap_entry_ok final"
    and "as_current s = []" "as_name s = None"
  shows "hostmap_scan (hostmap_text es final) s = entry_done (hostmap_pairs es final) s"
  using assms
proof (induction es arbitrary: s)
  case Nil
  then show ?case
    by (simp add: hostmap_scan_def hostmap_pairs_def scan_entry)
next
  case (Cons ed es)
  obtain e d where ed: "ed = (e, d)" by (cases ed)
  with Cons.prems have ok: "hostmap_entry_ok e" "hostmap_separator d"
    and rest: "\<forall>(e, d) \<in> set es. hostmap_entry_ok e \<and> hostmap_separator d"
    by auto
  let ?s1 = "entry_done (entry_alias e) s"
  have "fold hostmap_char (entry_text e @ [d]) s = ?s1"
    using ok scan_entry [OF ok(1) Cons.prems(3,4)] by (simp add: scan_separator)
  then have "hostmap_scan (hostmap_text (ed # es) final) s = hostmap_scan (hostmap_text es final) ?s1"
    using ed by (simp add: hostmap_scan_def)
  also have "\<dots> = entry_done (hostmap_pairs es final) ?s1"
    using rest Cons.prems(2) entry_done_ready [of "entry_alias e" s] by (intro Cons.IH) simp_all
  also have "\<dots> = entry_done (hostmap_pairs (ed # es) final) s"
    using ed by (simp add: entry_done_append hostmap_pairs_def)
  finally show ?case .
qed

lemma word_no_nul: "hostmap_word w \<Longrightarrow> CHR 0x00 \<notin> set w"
  by (auto simp: hostmap_word_def)

lemma entry_no_nul: "hostmap_entry_ok e \<Longrightarrow> CHR 0x00 \<notin> set (entry_text e)"
  by (cases e) (auto simp: hostmap_word_def)

lemma hostmap_text_no_nul:
  assumes "\<forall>(e, d) \<in> set es. hostmap_entry_ok e \<and> hostmap_separator d" "hostmap_entry_ok final"
  shows "CHR 0x00 \<notin> set (hostmap_text es final)"
  using assms
proof (induction es)
  case Nil
  then show ?case by (simp add: entry_no_nul)
next
  case (Cons ed es)
  obtain e d where ed: "ed = (e, d)" by (cases ed)
  with Cons.prems have "CHR 0x00 \<notin> set (entry_text e)" "d \<noteq> CHR 0x00"
    using entry_no_nul [of e] by (auto simp: hostmap_separator_def)
  with Cons ed show ?case by auto
qed

lemma delimiter_twice: "hostmap_delimiter (hostmap_delimiter s) = hostmap_delimiter s"
  by (simp add: hostmap_delimiter_def split: option.splits)

lemma scan_trailing:
  assumes "\<forall>d \<in> set ds. hostmap_separator d"
  shows "hostmap_scan (h @ ds) s = hostmap_scan h s"
  using assms
proof (induction ds rule: rev_induct)
  case Nil
  then show ?case by simp
next
  case (snoc d ds)
  then have "hostmap_scan (h @ ds @ [d]) s = hostmap_delimiter (hostmap_scan (h @ ds) s)"
    by (simp add: hostmap_scan_def scan_separator)
  also have "\<dots> = hostmap_scan h s"
    using snoc by (simp add: hostmap_scan_def delimiter_twice)
  finally show ?case by simp
qed


text \<open>
  C9, as the code has it. A host map is a sequence of entries, each followed by one
  separator, then a last entry and any run of trailing separators. An entry is a bare
  word, or \<open>NAME\<close>, \<^verbatim>\<open>=\<close> or \<^verbatim>\<open>:\<close>, \<open>VALUE\<close> with a non-empty name; a word holds no
  separator, no \<^verbatim>\<open>=\<close>, no \<^verbatim>\<open>:\<close> and no NUL, and the separators are the space, the tab and
  the semicolon (the comma, the newline and every other character are characters of a
  word). Then \<^verbatim>\<open>build_port_aliases\<close> records the alias \<open>NAME \<mapsto> VALUE\<close> of every assignment,
  the empty value included, a later one of a name replacing an earlier one, and nothing
  for a bare word; it appends the values, in order, to the target list when there is
  one; and trailing spaces, tabs and semicolons after any host map change nothing.
\<close>

theorem hostmap_parsed_as_pairs:
  assumes "\<forall>(e, d) \<in> set es. hostmap_entry_ok e \<and> hostmap_separator d"
    and "hostmap_entry_ok final"
    and "\<forall>d \<in> set trailing. hostmap_separator d"
  shows "build_port_aliases (Some (hostmap_text es final @ trailing)) ts
           = (add_aliases (hostmap_pairs es final) Map.empty,
              map_option (\<lambda>t. t @ map snd (hostmap_pairs es final)) ts)
         \<and> (CHR 0x00 \<notin> set h \<longrightarrow>
              build_port_aliases (Some (h @ trailing)) ts = build_port_aliases (Some h) ts)"
proof
  let ?s0 = "\<lparr>as_current = [], as_name = None, as_added = 0, as_aliases = Map.empty,
             as_targets = ts\<rparr>"
  have tn: "CHR 0x00 \<notin> set trailing"
    using assms(3) by (auto simp: hostmap_separator_def)
  have n: "CHR 0x00 \<notin> set (hostmap_text es final @ trailing)"
    using hostmap_text_no_nul [OF assms(1,2)] tn by simp
  have "hostmap_scan (hostmap_text es final @ trailing) ?s0 = hostmap_scan (hostmap_text es final) ?s0"
    using assms(3) by (rule scan_trailing)
  also have "\<dots> = entry_done (hostmap_pairs es final) ?s0"
    using assms(1,2) by (intro scan_hostmap_text) simp_all
  finally show "build_port_aliases (Some (hostmap_text es final @ trailing)) ts
           = (add_aliases (hostmap_pairs es final) Map.empty,
              map_option (\<lambda>t. t @ map snd (hostmap_pairs es final)) ts)"
    by (simp add: build_port_aliases_scan [OF n] entry_done_def)
  show "CHR 0x00 \<notin> set h \<longrightarrow>
          build_port_aliases (Some (h @ trailing)) ts = build_port_aliases (Some h) ts"
  proof
    assume hn: "CHR 0x00 \<notin> set h"
    then have "CHR 0x00 \<notin> set (h @ trailing)"
      using tn by simp
    then show "build_port_aliases (Some (h @ trailing)) ts = build_port_aliases (Some h) ts"
      using scan_trailing [OF assms(3), of h ?s0]
      by (simp add: build_port_aliases_scan hn)
  qed
qed

text \<open>
  The theorem at the host map \<^verbatim>\<open>node1=1 junk;node2:2\<close> followed by a tab and two spaces,
  and its second part at \<^verbatim>\<open>a=1\<close> followed by two spaces.
\<close>

theorem hostmap_parsed_as_pairs_witness:
  "fst (build_port_aliases (Some (''node1=1 junk;node2:2'' @ [CHR 0x09, CHR '' '', CHR '' ''])) (Some [])) ''node1'' = Some ''1''
   \<and> fst (build_port_aliases (Some (''node1=1 junk;node2:2'' @ [CHR 0x09, CHR '' '', CHR '' ''])) (Some [])) ''node2'' = Some ''2''
   \<and> fst (build_port_aliases (Some (''node1=1 junk;node2:2'' @ [CHR 0x09, CHR '' '', CHR '' ''])) (Some [])) ''junk'' = None
   \<and> snd (build_port_aliases (Some (''node1=1 junk;node2:2'' @ [CHR 0x09, CHR '' '', CHR '' ''])) (Some [])) = Some [''1'', ''2'']
   \<and> build_port_aliases (Some (''a=1'' @ ''  '')) None = build_port_aliases (Some ''a=1'') None"
proof -
  have 1: "\<forall>(e, d) \<in> set ex_hostmap_entries. hostmap_entry_ok e \<and> hostmap_separator d"
    by (simp add: ex_hostmap_entries_def hostmap_word_def hostmap_separator_def)
  have 2: "hostmap_entry_ok (Bare [])"
    by (simp add: hostmap_word_def)
  have 3: "\<forall>d \<in> set ''  ''. hostmap_separator d"
    by (simp add: hostmap_separator_def)
  have t: "hostmap_text ex_hostmap_entries (Bare []) @ ''  ''
             = ''node1=1 junk;node2:2'' @ [CHR 0x09, CHR '' '', CHR '' '']"
    by (simp add: ex_hostmap_entries_def)
  have p: "hostmap_pairs ex_hostmap_entries (Bare []) = [(''node1'', ''1''), (''node2'', ''2'')]"
    by (simp add: ex_hostmap_entries_def hostmap_pairs_def)
  have a: "build_port_aliases (Some (''a=1'' @ ''  '')) None
             = build_port_aliases (Some ''a=1'') None"
    using hostmap_parsed_as_pairs [OF 1 2 3, where h = "''a=1''" and ts = None, THEN conjunct2]
    by simp
  show ?thesis
    using hostmap_parsed_as_pairs [OF 1 2 3, where ts = "Some []", THEN conjunct1] a
    by (simp add: t p add_aliases_def)
qed

text \<open>
  C9 as stated fails on the comma and on white space other than the space and the tab.
  The \<^verbatim>\<open>switch\<close> of \<^verbatim>\<open>build_port_aliases\<close> lists its delimiters one by one: NUL, \<^verbatim>\<open>;\<close>, space
  and tab, with the comma commented out. In \<^verbatim>\<open>a=1,b=2\<close> the comma does not end the entry, so
  neither \<^verbatim>\<open>a\<close> nor \<^verbatim>\<open>b\<close> gets an alias, and the only alias recorded is \<^verbatim>\<open>1,b\<close> for
  \<^verbatim>\<open>2\<close>. A newline between \<^verbatim>\<open>a=1\<close> and \<^verbatim>\<open>b=2\<close> does the same, and a newline after \<^verbatim>\<open>a=1\<close>
  becomes part of the value.
\<close>

theorem hostmap_separator_counterexample:
  "fst (build_port_aliases (Some ''a=1,b=2'') None) ''a'' = None
   \<and> fst (build_port_aliases (Some ''a=1,b=2'') None) ''b'' = None
   \<and> fst (build_port_aliases (Some ''a=1,b=2'') None) ''1,b'' = Some ''2''
   \<and> fst (build_port_aliases (Some (''a=1'' @ [CHR 0x0A] @ ''b=2'')) None) ''a'' = None
   \<and> fst (build_port_aliases (Some (''a=1'' @ [CHR 0x0A] @ ''b=2'')) None) ''b'' = None
   \<and> fst (build_port_aliases (Some (''a=1'' @ [CHR 0x0A] @ ''b=2'')) None)
         (''1'' @ [CHR 0x0A] @ ''b'') = Some ''2''
   \<and> fst (build_port_aliases (Some (''a=1'' @ [CHR 0x0A])) None) ''a''
         = Some (''1'' @ [CHR 0x0A])"
  by (simp add: build_port_aliases_scan hostmap_scan_def hostmap_char_def hostmap_delimiter_def)

subsection \<open>The dynamic list of a device\<close>









subsection \<open>The order of the capable devices\<close>

declare g_list_sort.simps [simp del]

lemma sort_device_priority_zero: "sort_device_priority a b = 0"
  by (simp add: sort_device_priority_def)

lemma merge_equal:
  "(\<And>x y. compare_func x y = 0) \<Longrightarrow> g_list_sort_merge compare_func l1 l2 = l1 @ l2"
  by (induction compare_func l1 l2 rule: g_list_sort_merge.induct) simp_all

lemma g_list_sort_equal:
  "(\<And>x y. compare_func x y = 0) \<Longrightarrow> g_list_sort compare_func list = list"
proof (induction compare_func list rule: g_list_sort.induct)
  case (1 compare_func list)
  show ?case
  proof (cases "length list \<le> 1")
    case True
    then show ?thesis by (subst g_list_sort.simps) simp
  next
    case False
    have m: "g_list_sort_merge compare_func a b = a @ b" for a b
      using "1.prems" by (rule merge_equal)
    have l: "g_list_sort compare_func (take (length list div 2) list)
               = take (length list div 2) list"
      using False "1.prems" by (intro "1.IH"(1)) simp_all
    have r: "g_list_sort compare_func (drop (length list div 2) list)
               = drop (length list div 2) list"
      using False "1.prems" by (intro "1.IH"(2)) simp_all
    from False show ?thesis
      by (subst g_list_sort.simps) (simp only: l r m append_take_drop_id if_False)
  qed
qed

lemma sort_by_priority_is_identity: "g_list_sort sort_device_priority list = list"
  by (rule g_list_sort_equal) (rule sort_device_priority_zero)

text \<open>
  C2 does not hold of the code. \<^verbatim>\<open>sort_device_priority\<close> compares its first argument
  with itself, so the sort leaves the capable devices in the order of the hash table:
  with \<^verbatim>\<open>D2\<close> of priority 5 found before \<^verbatim>\<open>D1\<close> of priority 10, \<^verbatim>\<open>D2\<close> stays first and is
  the device the command is scheduled on. And \<^verbatim>\<open>stonith_fence\<close> stores the list in
  \<^verbatim>\<open>device_list\<close> but leaves \<^verbatim>\<open>device_next\<close>, the field \<^verbatim>\<open>exec_child_done\<close> reads, empty:
  with two capable devices, when the first fails (exit code 1) no other device is tried.
\<close>

theorem stonith_fence_ignores_priority:
  "map priority [ex_device ''D2'' 5 [] 0, ex_device ''D1'' 10 [] 0] = [5, 10]
   \<and> sort_device_priority (ex_device ''D2'' 5 [] 0) (ex_device ''D1'' 10 [] 0) = 0
   \<and> map device_id (g_list_sort sort_device_priority
        [ex_device ''D2'' 5 [] 0, ex_device ''D1'' 10 [] 0]) = [''D2'', ''D1'']
   \<and> map_option device_id (snd (snd (stonith_fence
        [ex_device ''D2'' 5 [] 0, ex_device ''D1'' 10 [] 0] ex_command))) = Some ''D2''
   \<and> map device_id (device_list (fst (snd (stonith_fence
        [ex_device ''D2'' 0 [] 0, ex_device ''D1'' 0 [] 0] ex_command)))) = [''D2'', ''D1'']
   \<and> device_next (fst (snd (stonith_fence
        [ex_device ''D2'' 0 [] 0, ex_device ''D1'' 0 [] 0] ex_command))) = []
   \<and> exec_child_done_next 1 (fst (snd (stonith_fence
        [ex_device ''D2'' 0 [] 0, ex_device ''D1'' 0 [] 0] ex_command))) = None"
  by (simp add: stonith_fence_def sort_by_priority_is_identity sort_device_priority_zero Let_def
                exec_child_done_next_def ex_command_def ex_device_def)

end
